theory Spec2Isabelle
  imports Main
begin

section \<open>Data model of \<^verbatim>\<open>src/server.js\<close>\<close>

text \<open>
  The server keeps two module-level variables, \<^verbatim>\<open>gameState\<close> and \<^verbatim>\<open>moveHistory\<close>.
  \<^verbatim>\<open>gameState.currentPlayer\<close> is one of the strings \<^verbatim>\<open>'A'\<close> and \<^verbatim>\<open>'B'\<close>; a board cell is
  \<^verbatim>\<open>null\<close> or the string built by the template \<^verbatim>\<open>`${player}-${piece}`\<close>; a roster entry is
  \<^verbatim>\<open>{ name, row, col }\<close>. Cells stay strings here, as in the source, because the move
  functions take them apart again (\<^verbatim>\<open>[0]\<close>, \<^verbatim>\<open>split('-')\<close>, \<^verbatim>\<open>endsWith('1')\<close>).
  \<^verbatim>\<open>None\<close> stands for both \<^verbatim>\<open>null\<close> and \<^verbatim>\<open>undefined\<close> (an array hole): the source only tests
  cells for truthiness and for \<^verbatim>\<open>===\<close> with a string, which do not tell the two apart.

  Inbound messages are typed as the client sends them: \<^verbatim>\<open>setupPositions\<close> is an array of
  strings, \<^verbatim>\<open>character\<close> and \<^verbatim>\<open>move\<close> are strings.
\<close>

datatype player = A | B

record piece =
  name :: string
  row :: nat
  col :: nat

type_synonym cell = "string option"

type_synonym grid = "cell list list"

record match_state =
  board :: grid
  piecesA :: "piece list"
  piecesB :: "piece list"
  currentPlayer :: player

record server =
  gameState :: match_state
  moveHistory :: "string list"

datatype message =
    Init match_state
  | Update match_state
  | MoveHistoryMsg "string list"
  | ErrorMsg string
  | EndMsg player

text \<open>\<^verbatim>\<open>ws.send\<close> answers the requesting client only, \<^verbatim>\<open>broadcast\<close> goes to every open client.\<close>

datatype delivery = Send message | Broadcast message

datatype command = Setup "string list" | Move string string | Reset

text \<open>The only exception the handlers can raise: reading a property of \<^verbatim>\<open>undefined\<close>.\<close>

datatype error = TypeError

record reply =
  next_state :: server
  sent :: "delivery list"
  thrown :: "error option"

section \<open>JavaScript primitives used by the handlers\<close>

definition playerChar :: "player \<Rightarrow> char" where
  "playerChar p = (case p of A \<Rightarrow> CHR ''A'' | B \<Rightarrow> CHR ''B'')"

text \<open>\<^verbatim>\<open>gameState.players[c]\<close> is defined for the keys \<^verbatim>\<open>'A'\<close> and \<^verbatim>\<open>'B'\<close> only.\<close>

definition playerOfChar :: "char \<Rightarrow> player option" where
  "playerOfChar c =
     (if c = CHR ''A'' then Some A else if c = CHR ''B'' then Some B else None)"

definition other :: "player \<Rightarrow> player" where
  "other p = (case p of A \<Rightarrow> B | B \<Rightarrow> A)"

definition pieces :: "match_state \<Rightarrow> player \<Rightarrow> piece list" where
  "pieces g p = (case p of A \<Rightarrow> piecesA g | B \<Rightarrow> piecesB g)"

definition setPieces :: "player \<Rightarrow> piece list \<Rightarrow> match_state \<Rightarrow> match_state" where
  "setPieces p ps g = (case p of A \<Rightarrow> g\<lparr>piecesA := ps\<rparr> | B \<Rightarrow> g\<lparr>piecesB := ps\<rparr>)"

text \<open>Reading an array element: out of range gives \<^verbatim>\<open>undefined\<close>.\<close>

definition js_get :: "cell list \<Rightarrow> nat \<Rightarrow> cell" where
  "js_get xs i = (if i < length xs then xs ! i else None)"

text \<open>Writing an array element: an index past the end extends the array, leaving holes.\<close>

definition js_set :: "cell list \<Rightarrow> nat \<Rightarrow> cell \<Rightarrow> cell list" where
  "js_set xs i v =
     (if i < length xs then xs[i := v]
      else xs @ replicate (i - length xs) None @ [v])"

text \<open>
  \<^verbatim>\<open>gameState.board[x][y]\<close>. Every row index the source uses is 0, 4, or guarded by
  \<^verbatim>\<open>0 <= x < 5\<close>, and the board always has five rows (\<open>reachable_rows\<close> below), so the
  outer lookup never yields \<^verbatim>\<open>undefined\<close>.
\<close>

definition getCell :: "grid \<Rightarrow> nat \<Rightarrow> nat \<Rightarrow> cell" where
  "getCell b x y = js_get (b ! x) y"

definition setCell :: "grid \<Rightarrow> nat \<Rightarrow> nat \<Rightarrow> cell \<Rightarrow> grid" where
  "setCell b x y v = b[x := js_set (b ! x) y v]"

text \<open>A cell is truthy when it is a non-empty string.\<close>

definition truthy :: "cell \<Rightarrow> bool" where
  "truthy c = (case c of None \<Rightarrow> False | Some s \<Rightarrow> s \<noteq> [])"

text \<open>\<^verbatim>\<open>cell && cell[0] === gameState.currentPlayer\<close>\<close>

definition heldBy :: "cell \<Rightarrow> player \<Rightarrow> bool" where
  "heldBy c p = (case c of None \<Rightarrow> False | Some s \<Rightarrow> s \<noteq> [] \<and> hd s = playerChar p)"

text \<open>\<^verbatim>\<open>cell && cell[0] !== gameState.currentPlayer\<close>\<close>

definition heldByOther :: "cell \<Rightarrow> player \<Rightarrow> bool" where
  "heldByOther c p = (case c of None \<Rightarrow> False | Some s \<Rightarrow> s \<noteq> [] \<and> hd s \<noteq> playerChar p)"

text \<open>\<^verbatim>\<open>s.split(sep)\<close> for a one-character separator: always at least one field.\<close>

fun js_split :: "char \<Rightarrow> string \<Rightarrow> string list" where
  "js_split sep [] = [[]]"
| "js_split sep (c # cs) =
     (if c = sep then [] # js_split sep cs
      else (c # hd (js_split sep cs)) # tl (js_split sep cs))"

text \<open>\<^verbatim>\<open>character.split('-')[1]\<close>; \<^verbatim>\<open>None\<close> is \<^verbatim>\<open>undefined\<close> (no dash in the string).\<close>

definition field1 :: "string \<Rightarrow> string option" where
  "field1 character =
     (case js_split (CHR ''-'') character of
        _ # f # _ \<Rightarrow> Some f
      | _ \<Rightarrow> None)"

definition endsWith1 :: "string \<Rightarrow> bool" where
  "endsWith1 character = (character \<noteq> [] \<and> last character = CHR ''1'')"

text \<open>The template literal \<^verbatim>\<open>`${player}-${piece}`\<close>.\<close>

definition label :: "player \<Rightarrow> string \<Rightarrow> string" where
  "label p piece = playerChar p # CHR ''-'' # piece"

section \<open>Initialisation and setup\<close>

definition emptyBoard :: grid where
  "emptyBoard = replicate 5 (replicate 5 None)"

definition initializeGame :: server where
  "initializeGame =
     \<lparr> gameState = \<lparr> board = emptyBoard, piecesA = [], piecesB = [], currentPlayer = A \<rparr>,
       moveHistory = [] \<rparr>"

definition resetGame :: "server \<Rightarrow> reply" where
  "resetGame s =
     \<lparr> next_state = initializeGame,
       sent = [Broadcast (Update (gameState initializeGame))],
       thrown = None \<rparr>"

definition homeRow :: "player \<Rightarrow> nat" where
  "homeRow p = (case p of A \<Rightarrow> 0 | B \<Rightarrow> 4)"

text \<open>
  The callback of \<^verbatim>\<open>setupPositions.map\<close>: it writes the board cell as a side effect and
  returns the roster entry. \<open>placeAll\<close> runs it over the array from index \<open>i\<close> on.
\<close>

fun placeAll :: "player \<Rightarrow> nat \<Rightarrow> string list \<Rightarrow> grid \<Rightarrow> piece list \<times> grid" where
  "placeAll p i [] b = ([], b)"
| "placeAll p i (piece # rest) b =
     (let b' = setCell b (homeRow p) i (Some (label p piece));
          (ps, b'') = placeAll p (Suc i) rest b'
      in (\<lparr> name = piece, row = homeRow p, col = i \<rparr> # ps, b''))"

definition handleSetup :: "string list \<Rightarrow> server \<Rightarrow> reply" where
  "handleSetup setupPositions s =
     (let g = gameState s; p = currentPlayer g in
      if pieces g p \<noteq> [] then
        \<lparr> next_state = s,
          sent = [Send (ErrorMsg ''Setup already completed.'')],
          thrown = None \<rparr>
      else
        let (ps, b) = placeAll p 0 setupPositions (board g);
            g1 = setPieces p ps (g\<lparr>board := b\<rparr>);
            g2 = g1\<lparr>currentPlayer := other p\<rparr>;
            g3 = (if piecesA g2 \<noteq> [] \<and> piecesB g2 \<noteq> [] then g2\<lparr>currentPlayer := A\<rparr> else g2)
        in \<lparr> next_state = s\<lparr>gameState := g3\<rparr>,
             sent = [Broadcast (Update g3)],
             thrown = None \<rparr>)"

section \<open>Movement rules\<close>

text \<open>
  \<^verbatim>\<open>capturePiece\<close>: the roster to filter is selected by the first character of the cell;
  a first character other than \<^verbatim>\<open>A\<close> or \<^verbatim>\<open>B\<close> makes \<^verbatim>\<open>gameState.players[player]\<close> undefined
  and the \<^verbatim>\<open>.pieces\<close> access throws.
\<close>

definition capturePiece :: "nat \<times> nat \<Rightarrow> match_state \<Rightarrow> error option \<times> match_state" where
  "capturePiece position g =
     (let (x, y) = position; character = getCell (board g) x y in
      if truthy character then
        (case playerOfChar (hd (the character)) of
           None \<Rightarrow> (Some TypeError, g)
         | Some p \<Rightarrow>
             let g1 = setPieces p (filter (\<lambda>q. row q \<noteq> x \<or> col q \<noteq> y) (pieces g p)) g
             in (None, g1\<lparr>board := setCell (board g1) x y None\<rparr>))
      else (None, g))"

definition movePawn :: "nat \<times> nat \<Rightarrow> nat \<times> nat \<Rightarrow> match_state \<Rightarrow> (error + bool) \<times> match_state" where
  "movePawn from to g =
     (let (x, y) = to in
      if heldBy (getCell (board g) x y) (currentPlayer g) then (Inr False, g)
      else
        let b1 = setCell (board g) x y (getCell (board g) (fst from) (snd from));
            b2 = setCell b1 (fst from) (snd from) None;
            (e, g') = capturePiece to (g\<lparr>board := b2\<rparr>)
        in (case e of Some err \<Rightarrow> (Inl err, g') | None \<Rightarrow> (Inr True, g')))"

text \<open>
  The \<^verbatim>\<open>for (let i = 1; i <= 2; i++)\<close> loop of \<^verbatim>\<open>moveHero1\<close> and \<^verbatim>\<open>moveHero2\<close>, over the
  remaining values of \<open>i\<close>. The result says whether the loop ran to its end
  (\<open>Inr True\<close>), left through \<^verbatim>\<open>return false\<close> (\<open>Inr False\<close>), or threw.
\<close>

fun heroPath :: "int \<times> int \<Rightarrow> int \<times> int \<Rightarrow> int list \<Rightarrow> match_state \<Rightarrow> (error + bool) \<times> match_state" where
  "heroPath f d [] g = (Inr True, g)"
| "heroPath f d (i # rest) g =
     (let nx = fst f + i * fst d; ny = snd f + i * snd d in
      if nx < 0 \<or> nx \<ge> 5 \<or> ny < 0 \<or> ny \<ge> 5 then (Inr False, g)
      else if heldByOther (getCell (board g) (nat nx) (nat ny)) (currentPlayer g) then
        (case capturePiece (nat nx, nat ny) g of
           (Some err, g') \<Rightarrow> (Inl err, g')
         | (None, g') \<Rightarrow> heroPath f d rest g')
      else heroPath f d rest g)"

definition moveHero1 :: "nat \<times> nat \<Rightarrow> nat \<times> nat \<Rightarrow> match_state \<Rightarrow> (error + bool) \<times> match_state" where
  "moveHero1 from to g =
     (let (x, y) = to in
      if heldBy (getCell (board g) x y) (currentPlayer g) then (Inr False, g)
      else
        let (fx, fy) = from;
            dx = sgn (int x - int fx);
            dy = sgn (int y - int fy)
        in (case heroPath (int fx, int fy) (dx, dy) [1, 2] g of
              (Inr True, g') \<Rightarrow>
                let b1 = setCell (board g') x y (getCell (board g') fx fy);
                    b2 = setCell b1 fx fy None
                in (Inr True, g'\<lparr>board := b2\<rparr>)
            | r \<Rightarrow> r))"

definition moveHero2 :: "nat \<times> nat \<Rightarrow> nat \<times> nat \<Rightarrow> match_state \<Rightarrow> (error + bool) \<times> match_state" where
  "moveHero2 from to g =
     (let (x, y) = to in
      if heldBy (getCell (board g) x y) (currentPlayer g) then (Inr False, g)
      else
        let (fx, fy) = from;
            dx = sgn (int x - int fx);
            dy = sgn (int y - int fy)
        in (case heroPath (int fx, int fy) (dx, dy) [1, 2] g of
              (Inr True, g') \<Rightarrow>
                let b1 = setCell (board g') x y (getCell (board g') fx fy);
                    b2 = setCell b1 fx fy None
                in (Inr True, g'\<lparr>board := b2\<rparr>)
            | r \<Rightarrow> r))"

text \<open>The own properties of the \<^verbatim>\<open>directions\<close> object literal.\<close>

definition directions :: "player \<Rightarrow> string \<Rightarrow> (int \<times> int) option" where
  "directions p m =
     (if m = ''L'' then Some (0, -1)
      else if m = ''R'' then Some (0, 1)
      else if m = ''F'' then Some (if p = A then (1, 0) else (-1, 0))
      else if m = ''B'' then Some (if p = A then (-1, 0) else (1, 0))
      else if m = ''FL'' then Some (if p = A then (1, -1) else (-1, 1))
      else if m = ''FR'' then Some (if p = A then (1, 1) else (-1, -1))
      else if m = ''BL'' then Some (if p = A then (-1, -1) else (1, 1))
      else if m = ''BR'' then Some (if p = A then (-1, 1) else (1, -1))
      else None)"

text \<open>
  \<^verbatim>\<open>directions[move]\<close> also finds what an object literal inherits from
  \<^verbatim>\<open>Object.prototype\<close>: for these keys the value is a function or an object without
  elements 0 and 1, so \<^verbatim>\<open>to\<close> becomes \<^verbatim>\<open>[NaN, NaN]\<close> and passes the bounds test (every
  comparison with \<^verbatim>\<open>NaN\<close> is false). For any other key \<^verbatim>\<open>directions[move]\<close> is
  \<^verbatim>\<open>undefined\<close> and \<^verbatim>\<open>directions[move][0]\<close> throws.
\<close>

definition objectPrototypeKeys :: "string list" where
  "objectPrototypeKeys =
     [''constructor'', ''__defineGetter__'', ''__defineSetter__'', ''hasOwnProperty'',
      ''__lookupGetter__'', ''__lookupSetter__'', ''isPrototypeOf'', ''propertyIsEnumerable'',
      ''toString'', ''valueOf'', ''__proto__'', ''toLocaleString'']"

text \<open>
  The nested scan for the character's position; a later match overwrites an earlier
  one, so the last match in row-major order wins.
\<close>

definition scanOrder :: "(nat \<times> nat) list" where
  "scanOrder = concat (map (\<lambda>x. map (\<lambda>y. (x, y)) [0..<5]) [0..<5])"

definition findFrom :: "grid \<Rightarrow> string \<Rightarrow> (nat \<times> nat) option" where
  "findFrom b character =
     fold (\<lambda>(x, y) from. if getCell b x y = Some character then Some (x, y) else from)
       scanOrder None"

definition findPiece :: "match_state \<Rightarrow> player \<Rightarrow> string \<Rightarrow> piece option" where
  "findPiece g p character = find (\<lambda>q. Some (name q) = field1 character) (pieces g p)"

definition moveDesc :: "player \<Rightarrow> string \<Rightarrow> string \<Rightarrow> string" where
  "moveDesc p character m =
     playerChar p # CHR ''-'' # the (field1 character) @ '': '' @ m"

text \<open>
  \<^verbatim>\<open>processMove\<close> returns the value of \<^verbatim>\<open>moved\<close> (or the exception), the state, and the
  \<^verbatim>\<open>moveHistory\<close> broadcast it makes itself when the move was made.
\<close>

definition dispatch :: "string \<Rightarrow> nat \<times> nat \<Rightarrow> nat \<times> nat \<Rightarrow> match_state \<Rightarrow> (error + bool) \<times> match_state" where
  "dispatch character from to g =
     (case field1 character of
        None \<Rightarrow> (Inl TypeError, g)
      | Some f \<Rightarrow>
          if f \<noteq> [] \<and> hd f = CHR ''P'' then movePawn from to g
          else if f \<noteq> [] \<and> hd f = CHR ''H'' then
            (if endsWith1 character then moveHero1 from to g else moveHero2 from to g)
          else (Inr False, g))"

definition processMove :: "player \<Rightarrow> string \<Rightarrow> string \<Rightarrow> server \<Rightarrow> (error + bool) \<times> server \<times> delivery list" where
  "processMove p character m s =
     (let g = gameState s in
      case findFrom (board g) character of
        None \<Rightarrow> (Inr False, s, [])
      | Some from \<Rightarrow>
          (case directions p m of
             None \<Rightarrow>
               if m \<in> set objectPrototypeKeys then
                 (case field1 character of
                    None \<Rightarrow> (Inl TypeError, s, [])
                  | Some f \<Rightarrow>
                      if f \<noteq> [] \<and> (hd f = CHR ''P'' \<or> hd f = CHR ''H'')
                      then (Inl TypeError, s, [])
                      else (Inr False, s, []))
               else (Inl TypeError, s, [])
           | Some d \<Rightarrow>
               let tx = int (fst from) + fst d; ty = int (snd from) + snd d in
               if tx < 0 \<or> tx \<ge> 5 \<or> ty < 0 \<or> ty \<ge> 5 then (Inr False, s, [])
               else
                 (case dispatch character from (nat tx, nat ty) g of
                    (Inl err, g') \<Rightarrow> (Inl err, s\<lparr>gameState := g'\<rparr>, [])
                  | (Inr False, g') \<Rightarrow> (Inr False, s\<lparr>gameState := g'\<rparr>, [])
                  | (Inr True, g') \<Rightarrow>
                      let h = moveHistory s @ [moveDesc p character m]
                      in (Inr True, \<lparr> gameState = g', moveHistory = h \<rparr>,
                          [Broadcast (MoveHistoryMsg h)]))))"

definition handleMove :: "string \<Rightarrow> string \<Rightarrow> server \<Rightarrow> reply" where
  "handleMove character m s =
     (let p = currentPlayer (gameState s) in
      case findPiece (gameState s) p character of
        None \<Rightarrow>
          \<lparr> next_state = s, sent = [Send (ErrorMsg ''Invalid character.'')], thrown = None \<rparr>
      | Some _ \<Rightarrow>
          (case processMove p character m s of
             (Inl err, s', out) \<Rightarrow> \<lparr> next_state = s', sent = out, thrown = Some err \<rparr>
           | (Inr False, s', out) \<Rightarrow>
               \<lparr> next_state = s', sent = out @ [Send (ErrorMsg ''Invalid move.'')], thrown = None \<rparr>
           | (Inr True, s', out) \<Rightarrow>
               if piecesA (gameState s') = [] \<or> piecesB (gameState s') = [] then
                 \<lparr> next_state = initializeGame,
                   sent = out @ [Broadcast (EndMsg (if piecesA (gameState s') = [] then B else A))],
                   thrown = None \<rparr>
               else
                 let g'' = (gameState s')\<lparr>currentPlayer := other p\<rparr> in
                 \<lparr> next_state = s'\<lparr>gameState := g''\<rparr>,
                   sent = out @ [Broadcast (Update g''), Broadcast (MoveHistoryMsg (moveHistory s'))],
                   thrown = None \<rparr>))"

text \<open>The \<^verbatim>\<open>ws.on('message', ...)\<close> dispatcher.\<close>

definition handle :: "command \<Rightarrow> server \<Rightarrow> reply" where
  "handle c s =
     (case c of
        Setup setupPositions \<Rightarrow> handleSetup setupPositions s
      | Move character m \<Rightarrow> handleMove character m s
      | Reset \<Rightarrow> resetGame s)"

text \<open>
  Running a sequence of messages from a state. Nothing in the server catches an
  exception thrown by the message listener, so the run stops there (\<open>None\<close>).
\<close>

fun run :: "command list \<Rightarrow> server \<Rightarrow> server option" where
  "run [] s = Some s"
| "run (c # cs) s =
     (let r = handle c s in
      if thrown r = None then run cs (next_state r) else None)"

text \<open>The states the server can be in: the initial one and what handled messages lead to.\<close>

inductive reachable :: "server \<Rightarrow> bool" where
  reachable_init: "reachable initializeGame"
| reachable_step: "reachable s \<Longrightarrow> thrown (handle c s) = None \<Longrightarrow> reachable (next_state (handle c s))"

section \<open>Concrete matches used below\<close>

text \<open>Both players have set up one hero; it is player A's turn.\<close>

definition heroDuel :: server where
  "heroDuel =
     \<lparr> gameState =
         \<lparr> board =
             [[Some ''A-H1'', None, None, None, None],
              [None, None, None, None, None],
              [None, None, None, None, None],
              [None, None, None, None, None],
              [Some ''B-H1'', None, None, None, None]],
           piecesA = [\<lparr>name = ''H1'', row = 0, col = 0\<rparr>],
           piecesB = [\<lparr>name = ''H1'', row = 4, col = 0\<rparr>],
           currentPlayer = A \<rparr>,
       moveHistory = [] \<rparr>"

text \<open>
  Player A's pawn \<^verbatim>\<open>A-P1\<close> stands on (0,1) and player B's hero has walked to (1,2),
  one diagonal step in front of it; it is player A's turn.
\<close>

definition pawnFacesHero :: server where
  "pawnFacesHero =
     \<lparr> gameState =
         \<lparr> board =
             [[None, Some ''A-P1'', None, None, None],
              [Some ''A-H1'', None, Some ''B-H1'', None, None],
              [None, None, None, None, None],
              [None, None, None, None, None],
              [Some ''B-P1'', Some ''B-P2'', Some ''B-P3'', None, None]],
           piecesA = [\<lparr>name = ''H1'', row = 0, col = 0\<rparr>, \<lparr>name = ''P1'', row = 0, col = 1\<rparr>],
           piecesB = [\<lparr>name = ''P1'', row = 4, col = 0\<rparr>, \<lparr>name = ''P2'', row = 4, col = 1\<rparr>,
                      \<lparr>name = ''P3'', row = 4, col = 2\<rparr>, \<lparr>name = ''H1'', row = 4, col = 3\<rparr>],
           currentPlayer = A \<rparr>,
       moveHistory =
         [''A-H1: F'', ''B-H1: FR'', ''A-H1: F'', ''B-H1: FR'', ''A-H1: B'', ''B-H1: FL''] \<rparr>"

text \<open>
  Player A's hero stands on (3,0), player B's pawn \<^verbatim>\<open>B-P2\<close> on (4,1); it is player A's
  turn.
\<close>

definition heroAtEdge :: server where
  "heroAtEdge =
     \<lparr> gameState =
         \<lparr> board =
             [[None, None, None, None, None],
              [None, None, None, None, None],
              [None, None, None, None, None],
              [Some ''A-H1'', None, None, None, None],
              [None, Some ''B-P2'', None, Some ''B-H1'', None]],
           piecesA = [\<lparr>name = ''H1'', row = 0, col = 0\<rparr>],
           piecesB = [\<lparr>name = ''P2'', row = 4, col = 1\<rparr>, \<lparr>name = ''H1'', row = 4, col = 2\<rparr>],
           currentPlayer = A \<rparr>,
       moveHistory =
         [''A-H1: F'', ''B-H1: R'', ''A-H1: F'', ''B-H1: L'', ''A-H1: F'', ''B-H1: R''] \<rparr>"

text \<open>Player A has set up one hero; it is player B's turn to set up.\<close>

definition heroSetUp :: server where
  "heroSetUp =
     \<lparr> gameState =
         \<lparr> board =
             [[Some ''A-H1'', None, None, None, None],
              [None, None, None, None, None],
              [None, None, None, None, None],
              [None, None, None, None, None],
              [None, None, None, None, None]],
           piecesA = [\<lparr>name = ''H1'', row = 0, col = 0\<rparr>],
           piecesB = [],
           currentPlayer = B \<rparr>,
       moveHistory = [] \<rparr>"

text \<open>
  Player A passed with an empty setup, player B set up one pawn; it is player A's turn
  to set up.
\<close>

definition lateSetUp :: server where
  "lateSetUp =
     \<lparr> gameState =
         \<lparr> board =
             [[None, None, None, None, None],
              [None, None, None, None, None],
              [None, None, None, None, None],
              [None, None, None, None, None],
              [Some ''B-P1'', None, None, None, None]],
           piecesA = [],
           piecesB = [\<lparr>name = ''P1'', row = 4, col = 0\<rparr>],
           currentPlayer = A \<rparr>,
       moveHistory = [] \<rparr>"

text \<open>
  Late in a match played by the rules: player B's last piece \<^verbatim>\<open>B-H1\<close> is back on its
  home cell (4,1) and player A's hero stands on (2,1), two steps in front of it; it is
  player A's turn.
\<close>

definition lastPieceAhead :: server where
  "lastPieceAhead =
     \<lparr> gameState =
         \<lparr> board =
             [[None, None, None, None, None],
              [None, None, None, None, None],
              [None, Some ''A-H1'', None, None, None],
              [None, None, None, None, None],
              [None, Some ''B-H1'', None, None, None]],
           piecesA = [\<lparr>name = ''H1'', row = 0, col = 0\<rparr>],
           piecesB = [\<lparr>name = ''H1'', row = 4, col = 1\<rparr>],
           currentPlayer = A \<rparr>,
       moveHistory =
         [''A-H1: F'', ''B-H1: R'', ''A-H1: F'', ''B-H1: L'', ''A-H1: F'', ''B-H1: R'',
          ''A-H1: BR'', ''B-H1: L''] \<rparr>"

section \<open>Outcomes and an invariant of the board\<close>

text \<open>
  A command is rejected when the handler answers the requesting client with an
  \<^verbatim>\<open>error\<close> message.
\<close>

fun isError :: "delivery \<Rightarrow> bool" where
  "isError (Send (ErrorMsg e)) = True"
| "isError _ = False"

definition rejected :: "reply \<Rightarrow> bool" where
  "rejected r = list_ex isError (sent r)"

text \<open>
  A label is a pawn's when \<^verbatim>\<open>character.split('-')[1][0]\<close> is \<^verbatim>\<open>'P'\<close>, the test of the
  type switch in \<^verbatim>\<open>processMove\<close>. In every reachable state (\<open>reachable_anchored\<close>
  below) a pawn label on the board has an entry with the cell's coordinates in the
  roster of the player its first character names: pawns never leave the cell they were
  set up on without being erased from the board.
\<close>

definition pawnLabel :: "string \<Rightarrow> bool" where
  "pawnLabel l = (case field1 l of None \<Rightarrow> False | Some f \<Rightarrow> f \<noteq> [] \<and> hd f = CHR ''P'')"

definition anchored :: "match_state \<Rightarrow> bool" where
  "anchored g =
     (length (board g) = 5 \<and>
      (\<forall>x<5. \<forall>y l p.
         getCell (board g) x y = Some l \<and> l \<noteq> [] \<and> playerOfChar (hd l) = Some p \<and> pawnLabel l
           \<longrightarrow> (\<exists>q\<in>set (pieces g p). row q = x \<and> col q = y)))"

section \<open>Arrays, cells and the board\<close>

lemma js_get_js_set: "js_get (js_set xs i v) j = (if j = i then v else js_get xs j)"
  by (auto simp: js_get_def js_set_def nth_append)

lemma length_js_set: "length (js_set xs i v) = max (length xs) (Suc i)"
  by (auto simp: js_set_def)

lemma length_setCell: "length (setCell b x y v) = length b"
  by (simp add: setCell_def)

lemma getCell_setCell:
  "x < length b \<Longrightarrow>
   getCell (setCell b x y v) x' y' = (if x' = x \<and> y' = y then v else getCell b x' y')"
  by (auto simp: getCell_def setCell_def js_get_js_set nth_list_update)

lemma rowlen_setCell:
  "x < length b \<Longrightarrow>
   length (setCell b x y v ! x') = (if x' = x then max (length (b ! x)) (Suc y) else length (b ! x'))"
  by (auto simp: setCell_def length_js_set nth_list_update)

lemma placeAll_length: "length (snd (placeAll p i sp b)) = length b"
  by (induction sp arbitrary: i b) (simp_all add: length_setCell case_prod_unfold Let_def)

lemma placeAll_pieces:
  "fst (placeAll p i sp b) =
     map (\<lambda>(k, piece). \<lparr>name = piece, row = homeRow p, col = k\<rparr>) (enumerate i sp)"
  by (induction sp arbitrary: i b) (simp_all add: case_prod_unfold Let_def)

lemma placeAll_cell:
  "homeRow p < length b \<Longrightarrow>
   getCell (snd (placeAll p i sp b)) x y =
     (if x = homeRow p \<and> i \<le> y \<and> y < i + length sp then Some (label p (sp ! (y - i)))
      else getCell b x y)"
proof (induction sp arbitrary: i b)
  case Nil
  then show ?case by auto
next
  case (Cons piece rest)
  have len: "homeRow p < length (setCell b (homeRow p) i (Some (label p piece)))"
    using Cons.prems by (simp add: length_setCell)
  show ?case
    using Cons.IH[OF len, of "Suc i"] Cons.prems
    by (auto simp: getCell_setCell case_prod_unfold Let_def nth_Cons' Suc_diff_le)
qed

lemma placeAll_rowlen:
  "homeRow p < length b \<Longrightarrow>
   length (snd (placeAll p i sp b) ! x) =
     (if x = homeRow p \<and> sp \<noteq> [] then max (length (b ! x)) (i + length sp) else length (b ! x))"
proof (induction sp arbitrary: i b)
  case Nil
  then show ?case by simp
next
  case (Cons piece rest)
  have len: "homeRow p < length (setCell b (homeRow p) i (Some (label p piece)))"
    using Cons.prems by (simp add: length_setCell)
  show ?case
    using Cons.IH[OF len, of "Suc i"] Cons.prems
    by (auto simp: rowlen_setCell case_prod_unfold Let_def)
qed

section \<open>The board keeps its five rows\<close>

lemma board_setPieces [simp]: "board (setPieces p ps g) = board g"
  by (simp add: setPieces_def split: player.splits)

lemma currentPlayer_setPieces [simp]: "currentPlayer (setPieces p ps g) = currentPlayer g"
  by (simp add: setPieces_def split: player.splits)

lemma pieces_setPieces [simp]: "pieces (setPieces p ps g) q = (if q = p then ps else pieces g q)"
  by (simp add: setPieces_def pieces_def split: player.splits)

lemma pieces_board_update [simp]: "pieces (g\<lparr>board := b\<rparr>) q = pieces g q"
  by (simp add: pieces_def split: player.splits)

lemma pieces_currentPlayer_update [simp]: "pieces (g\<lparr>currentPlayer := c\<rparr>) q = pieces g q"
  by (simp add: pieces_def split: player.splits)

lemma other_neq [simp]: "other p \<noteq> p" "p \<noteq> other p"
  by (cases p; simp add: other_def)+

lemma capturePiece_rows: "length (board (snd (capturePiece pos g))) = length (board g)"
  by (simp add: capturePiece_def Let_def length_setCell split: prod.splits option.splits)

lemma movePawn_rows: "length (board (snd (movePawn from to g))) = length (board g)"
proof -
  have "length (board (snd (capturePiece to (g\<lparr>board := b\<rparr>)))) = length b" for b
    using capturePiece_rows[of to "g\<lparr>board := b\<rparr>"] by simp
  then show ?thesis
    by (simp add: movePawn_def Let_def length_setCell case_prod_unfold split: option.splits)
qed

lemma heroPath_rows: "length (board (snd (heroPath f d is g))) = length (board g)"
proof (induction "is" arbitrary: g)
  case Nil
  then show ?case by simp
next
  case (Cons i rest)
  show ?case
    using Cons.IH capturePiece_rows[of "(nat (fst f + i * fst d), nat (snd f + i * snd d))" g]
    by (auto simp: Let_def split: prod.splits option.splits)
qed

lemma moveHero1_rows: "length (board (snd (moveHero1 from to g))) = length (board g)"
proof -
  obtain fx fy x y where ft: "from = (fx, fy)" "to = (x, y)"
    by (cases "from", cases to) auto
  obtain r g1 where hp:
    "heroPath (int fx, int fy) (sgn (int x - int fx), sgn (int y - int fy)) [1, 2] g = (r, g1)"
    by force
  have len: "length (board g1) = length (board g)"
    using heroPath_rows[of "(int fx, int fy)" "(sgn (int x - int fx), sgn (int y - int fy))" "[1, 2]" g] hp
    by simp
  show ?thesis
  proof (cases r)
    case (Inl e)
    then show ?thesis using hp len ft by (simp add: moveHero1_def)
  next
    case (Inr ok)
    then show ?thesis using hp len ft by (cases ok) (simp_all add: moveHero1_def length_setCell)
  qed
qed

lemma moveHero2_rows: "length (board (snd (moveHero2 from to g))) = length (board g)"
proof -
  obtain fx fy x y where ft: "from = (fx, fy)" "to = (x, y)"
    by (cases "from", cases to) auto
  obtain r g1 where hp:
    "heroPath (int fx, int fy) (sgn (int x - int fx), sgn (int y - int fy)) [1, 2] g = (r, g1)"
    by force
  have len: "length (board g1) = length (board g)"
    using heroPath_rows[of "(int fx, int fy)" "(sgn (int x - int fx), sgn (int y - int fy))" "[1, 2]" g] hp
    by simp
  show ?thesis
  proof (cases r)
    case (Inl e)
    then show ?thesis using hp len ft by (simp add: moveHero2_def)
  next
    case (Inr ok)
    then show ?thesis using hp len ft by (cases ok) (simp_all add: moveHero2_def length_setCell)
  qed
qed

lemma dispatch_rows: "length (board (snd (dispatch character from to g))) = length (board g)"
  by (simp add: dispatch_def movePawn_rows moveHero1_rows moveHero2_rows split: option.splits)

lemma processMove_rows:
  "length (board (gameState (fst (snd (processMove p character m s))))) = length (board (gameState s))"
proof (cases "findFrom (board (gameState s)) character")
  case None
  then show ?thesis by (simp add: processMove_def)
next
  case found: (Some fr)
  show ?thesis
  proof (cases "directions p m")
    case None
    then show ?thesis using found by (simp add: processMove_def split: option.splits)
  next
    case (Some d)
    define tx where "tx = int (fst fr) + fst d"
    define ty where "ty = int (snd fr) + snd d"
    obtain r g1 where dp: "dispatch character fr (nat tx, nat ty) (gameState s) = (r, g1)"
      by force
    have len: "length (board g1) = length (board (gameState s))"
      using dispatch_rows[of character fr "(nat tx, nat ty)" "gameState s"] dp by simp
    show ?thesis
    proof (cases r)
      case (Inl e)
      then show ?thesis using found Some dp len
        by (simp add: processMove_def Let_def tx_def ty_def)
    next
      case (Inr ok)
      then show ?thesis using found Some dp len
        by (cases ok) (simp_all add: processMove_def Let_def tx_def ty_def)
    qed
  qed
qed

lemma rows_initializeGame: "length (board (gameState initializeGame)) = 5"
  by (simp add: initializeGame_def emptyBoard_def)

lemma handleMove_rows:
  assumes "length (board (gameState s)) = 5"
  shows "length (board (gameState (next_state (handleMove character m s)))) = 5"
proof (cases "findPiece (gameState s) (currentPlayer (gameState s)) character")
  case None
  then show ?thesis using assms by (simp add: handleMove_def)
next
  case (Some q)
  obtain r s1 out where pm: "processMove (currentPlayer (gameState s)) character m s = (r, s1, out)"
    by (metis prod_cases3)
  have len: "length (board (gameState s1)) = 5"
    using processMove_rows[of "currentPlayer (gameState s)" character m s] pm assms by simp
  show ?thesis
  proof (cases r)
    case (Inl e)
    then show ?thesis using Some pm len by (simp add: handleMove_def)
  next
    case (Inr ok)
    then show ?thesis using Some pm len
      by (cases ok) (simp_all add: handleMove_def Let_def rows_initializeGame)
  qed
qed

lemma handleSetup_rows:
  "length (board (gameState (next_state (handleSetup sp s)))) = length (board (gameState s))"
  using placeAll_length[of "currentPlayer (gameState s)" 0 sp "board (gameState s)"]
  by (simp add: handleSetup_def Let_def case_prod_unfold)

lemma handle_rows:
  "length (board (gameState s)) = 5 \<Longrightarrow> length (board (gameState (next_state (handle c s)))) = 5"
  by (cases c) (simp_all add: handle_def handleSetup_rows handleMove_rows resetGame_def rows_initializeGame)

lemma reachable_rows: "reachable s \<Longrightarrow> length (board (gameState s)) = 5"
  by (induction rule: reachable.induct) (simp_all add: rows_initializeGame handle_rows)

section \<open>Setup\<close>

lemma placeAll_pieces_length: "length (fst (placeAll p i sp b)) = length sp"
  by (simp add: placeAll_pieces)

lemma placeAll_pieces_nth:
  "k < length sp \<Longrightarrow>
   fst (placeAll p i sp b) ! k = \<lparr>name = sp ! k, row = homeRow p, col = i + k\<rparr>"
  by (simp add: placeAll_pieces nth_enumerate_eq)

lemma placeAll_pieces_Nil: "fst (placeAll p i sp b) = [] \<longleftrightarrow> sp = []"
  using placeAll_pieces_length[of p i sp b] by (metis length_0_conv)

lemma handleSetup_accepted:
  assumes "pieces (gameState s) (currentPlayer (gameState s)) = []"
  shows "thrown (handleSetup sp s) = None"
    and "sent (handleSetup sp s) = [Broadcast (Update (gameState (next_state (handleSetup sp s))))]"
    and "moveHistory (next_state (handleSetup sp s)) = moveHistory s"
    and "board (gameState (next_state (handleSetup sp s))) =
           snd (placeAll (currentPlayer (gameState s)) 0 sp (board (gameState s)))"
    and "pieces (gameState (next_state (handleSetup sp s))) q =
           (if q = currentPlayer (gameState s)
            then fst (placeAll (currentPlayer (gameState s)) 0 sp (board (gameState s)))
            else pieces (gameState s) q)"
    and "currentPlayer (gameState (next_state (handleSetup sp s))) =
           (if piecesA (gameState (next_state (handleSetup sp s))) \<noteq> [] \<and>
               piecesB (gameState (next_state (handleSetup sp s))) \<noteq> []
            then A else other (currentPlayer (gameState s)))"
  using assms
  by (simp_all add: handleSetup_def Let_def case_prod_unfold setPieces_def pieces_def
      split: player.splits)

lemma handleSetup_rejected:
  assumes "pieces (gameState s) (currentPlayer (gameState s)) \<noteq> []"
  shows "handleSetup sp s =
     \<lparr> next_state = s, sent = [Send (ErrorMsg ''Setup already completed.'')], thrown = None \<rparr>"
  using assms by (simp add: handleSetup_def Let_def)

lemma reachable_run: "reachable s \<Longrightarrow> run cs s = Some s' \<Longrightarrow> reachable s'"
proof (induction cs arbitrary: s)
  case Nil
  then show ?case by simp
next
  case (Cons c cs)
  from Cons.prems(2) have ok: "thrown (handle c s) = None"
    and rest: "run cs (next_state (handle c s)) = Some s'"
    by (simp_all add: Let_def split: if_splits)
  from Cons.IH[OF reachable_step[OF Cons.prems(1) ok] rest] show ?case .
qed

lemma other_other: "other (other p) = p"
  by (cases p) (simp_all add: other_def)

section \<open>The move functions, case by case\<close>

lemma moveHero2_eq: "moveHero2 = moveHero1"
  by (simp add: fun_eq_iff moveHero1_def moveHero2_def)

lemma capturePiece_cases [consumes 0, case_names idle crash took]:
  obtains
    (idle) "\<not> truthy (getCell (board g) x y)" "capturePiece (x, y) g = (None, g)"
  | (crash) l where "getCell (board g) x y = Some l" "l \<noteq> []" "playerOfChar (hd l) = None"
      "capturePiece (x, y) g = (Some TypeError, g)"
  | (took) l p where "getCell (board g) x y = Some l" "l \<noteq> []" "playerOfChar (hd l) = Some p"
      "capturePiece (x, y) g =
         (None, (setPieces p (filter (\<lambda>q. row q \<noteq> x \<or> col q \<noteq> y) (pieces g p)) g)
                  \<lparr>board := setCell (board g) x y None\<rparr>)"
proof (cases "getCell (board g) x y")
  case None
  then show ?thesis using idle by (simp add: capturePiece_def truthy_def)
next
  case (Some l)
  show ?thesis
  proof (cases "l = []")
    case True
    then show ?thesis using Some idle by (simp add: capturePiece_def truthy_def)
  next
    case False
    show ?thesis
    proof (cases "playerOfChar (hd l)")
      case None
      then show ?thesis using Some False crash by (simp add: capturePiece_def truthy_def)
    next
      case (Some p)
      then show ?thesis using \<open>getCell (board g) x y = Some l\<close> False took
        by (simp add: capturePiece_def truthy_def Let_def)
    qed
  qed
qed

lemma capturePiece_cur: "currentPlayer (snd (capturePiece pos g)) = currentPlayer g"
proof -
  obtain x y where pos: "pos = (x, y)" by (cases pos)
  show ?thesis unfolding pos
    by (rule capturePiece_cases[of g x y]) simp_all
qed

lemma heroPath_preserves:
  assumes cap: "\<And>g x y. x < 5 \<Longrightarrow> y < 5 \<Longrightarrow> heldByOther (getCell (board g) x y) (currentPlayer g) \<Longrightarrow>
      P g \<Longrightarrow> P (snd (capturePiece (x, y) g))"
    and "P g"
  shows "P (snd (heroPath f d is g))"
  using assms(2)
proof (induction "is" arbitrary: g)
  case Nil
  then show ?case by simp
next
  case (Cons i rest)
  define nx where "nx = fst f + i * fst d"
  define ny where "ny = snd f + i * snd d"
  show ?case
  proof (cases "nx < 0 \<or> nx \<ge> 5 \<or> ny < 0 \<or> ny \<ge> 5")
    case True
    then show ?thesis using Cons.prems by (simp add: nx_def ny_def Let_def)
  next
    case inside: False
    show ?thesis
    proof (cases "heldByOther (getCell (board g) (nat nx) (nat ny)) (currentPlayer g)")
      case False
      then show ?thesis using inside Cons.IH[OF Cons.prems] by (simp add: nx_def ny_def Let_def)
    next
      case True
      obtain e g1 where c: "capturePiece (nat nx, nat ny) g = (e, g1)" by force
      have "nat nx < 5" "nat ny < 5" using inside by auto
      then have "P g1" using cap[of "nat nx" "nat ny" g] True Cons.prems c by simp
      then show ?thesis using inside True c Cons.IH[of g1] Cons.prems
        by (cases e) (simp_all add: nx_def ny_def Let_def)
    qed
  qed
qed

lemma heroPath_cur: "currentPlayer (snd (heroPath f d is g)) = currentPlayer g"
  by (rule heroPath_preserves[where P = "\<lambda>h. currentPlayer h = currentPlayer g"])
     (simp_all add: capturePiece_cur)

lemma movePawn_cur: "currentPlayer (snd (movePawn fr to g)) = currentPlayer g"
proof -
  have "currentPlayer (snd (capturePiece to (g\<lparr>board := b\<rparr>))) = currentPlayer g" for b
    by (simp add: capturePiece_cur)
  then show ?thesis
    by (simp add: movePawn_def Let_def case_prod_unfold split: option.splits)
qed

lemma moveHero1_unfold:
  "moveHero1 (fx, fy) (x, y) g =
     (if heldBy (getCell (board g) x y) (currentPlayer g) then (Inr False, g)
      else case heroPath (int fx, int fy) (sgn (int x - int fx), sgn (int y - int fy)) [1, 2] g of
             (Inr True, g') \<Rightarrow>
               (Inr True, g'\<lparr>board := setCell (setCell (board g') x y (getCell (board g') fx fy)) fx fy None\<rparr>)
           | (Inr False, g') \<Rightarrow> (Inr False, g')
           | (Inl e, g') \<Rightarrow> (Inl e, g'))"
  by (simp add: moveHero1_def Let_def split: prod.splits sum.splits bool.splits)

lemma moveHero1_cur: "currentPlayer (snd (moveHero1 fr to g)) = currentPlayer g"
proof -
  obtain fx fy x y where ft: "fr = (fx, fy)" "to = (x, y)"
    by (cases fr, cases to) auto
  obtain r g1 where hp:
    "heroPath (int fx, int fy) (sgn (int x - int fx), sgn (int y - int fy)) [1, 2] g = (r, g1)"
    by force
  have c: "currentPlayer g1 = currentPlayer g"
    using heroPath_cur[of "(int fx, int fy)" "(sgn (int x - int fx), sgn (int y - int fy))" "[1, 2]" g] hp
    by simp
  show ?thesis unfolding ft moveHero1_unfold
    using hp c by (simp split: sum.splits bool.splits)
qed

lemma dispatch_cur: "currentPlayer (snd (dispatch character fr to g)) = currentPlayer g"
  by (simp add: dispatch_def movePawn_cur moveHero1_cur moveHero2_eq split: option.splits)

text \<open>What \<^verbatim>\<open>processMove\<close> returns: either it leaves before the type switch, or it
  reports what the move function of the piece type did.\<close>

lemma processMove_cases [consumes 0, case_names untouched dispatched]:
  obtains
    (untouched) r where "r \<noteq> Inr True" "processMove p character m s = (r, s, [])"
  | (dispatched) fr d r g' where
      "findFrom (board (gameState s)) character = Some fr"
      "directions p m = Some d"
      "0 \<le> int (fst fr) + fst d" "int (fst fr) + fst d < 5"
      "0 \<le> int (snd fr) + snd d" "int (snd fr) + snd d < 5"
      "dispatch character fr (nat (int (fst fr) + fst d), nat (int (snd fr) + snd d)) (gameState s)
         = (r, g')"
      "processMove p character m s =
         (if r = Inr True
          then (Inr True, \<lparr>gameState = g', moveHistory = moveHistory s @ [moveDesc p character m]\<rparr>,
                [Broadcast (MoveHistoryMsg (moveHistory s @ [moveDesc p character m]))])
          else (r, s\<lparr>gameState := g'\<rparr>, []))"
proof (cases "findFrom (board (gameState s)) character")
  case None
  have "processMove p character m s = (Inr False, s, [])"
    using None by (simp add: processMove_def)
  then show ?thesis using untouched[of "Inr False"] by simp
next
  case found: (Some fr)
  show ?thesis
  proof (cases "directions p m")
    case None
    have "processMove p character m s = (Inl TypeError, s, [])
        \<or> processMove p character m s = (Inr False, s, [])"
      using found None by (simp add: processMove_def split: option.splits)
    then show ?thesis
      using untouched[of "Inl TypeError"] untouched[of "Inr False"] by auto
  next
    case (Some d)
    define tx where "tx = int (fst fr) + fst d"
    define ty where "ty = int (snd fr) + snd d"
    show ?thesis
    proof (cases "tx < 0 \<or> tx \<ge> 5 \<or> ty < 0 \<or> ty \<ge> 5")
      case True
      have "processMove p character m s = (Inr False, s, [])"
        using found Some True by (simp add: processMove_def Let_def tx_def ty_def)
      then show ?thesis using untouched[of "Inr False"] by simp
    next
      case inside: False
      obtain r g1 where dp: "dispatch character fr (nat tx, nat ty) (gameState s) = (r, g1)"
        by force
      have "processMove p character m s =
         (if r = Inr True
          then (Inr True, \<lparr>gameState = g1, moveHistory = moveHistory s @ [moveDesc p character m]\<rparr>,
                [Broadcast (MoveHistoryMsg (moveHistory s @ [moveDesc p character m]))])
          else (r, s\<lparr>gameState := g1\<rparr>, []))"
        using found Some inside dp
        by (cases r) (auto simp: processMove_def Let_def tx_def ty_def split: bool.splits)
      then show ?thesis
        using dispatched[of fr d r g1] found Some inside dp by (simp add: tx_def ty_def)
    qed
  qed
qed

lemma handleMove_cases [consumes 0, case_names unknown threw illegal won moved]:
  obtains
    (unknown) "findPiece (gameState s) (currentPlayer (gameState s)) character = None"
      "handleMove character m s =
         \<lparr>next_state = s, sent = [Send (ErrorMsg ''Invalid character.'')], thrown = None\<rparr>"
  | (threw) q e g' where
      "findPiece (gameState s) (currentPlayer (gameState s)) character = Some q"
      "processMove (currentPlayer (gameState s)) character m s = (Inl e, s\<lparr>gameState := g'\<rparr>, [])"
      "currentPlayer g' = currentPlayer (gameState s)"
      "handleMove character m s = \<lparr>next_state = s\<lparr>gameState := g'\<rparr>, sent = [], thrown = Some e\<rparr>"
  | (illegal) q g' where
      "findPiece (gameState s) (currentPlayer (gameState s)) character = Some q"
      "processMove (currentPlayer (gameState s)) character m s = (Inr False, s\<lparr>gameState := g'\<rparr>, [])"
      "currentPlayer g' = currentPlayer (gameState s)"
      "handleMove character m s =
         \<lparr>next_state = s\<lparr>gameState := g'\<rparr>, sent = [Send (ErrorMsg ''Invalid move.'')], thrown = None\<rparr>"
  | (won) q g' h where
      "findPiece (gameState s) (currentPlayer (gameState s)) character = Some q"
      "processMove (currentPlayer (gameState s)) character m s =
         (Inr True, \<lparr>gameState = g', moveHistory = h\<rparr>, [Broadcast (MoveHistoryMsg h)])"
      "piecesA g' = [] \<or> piecesB g' = []"
      "handleMove character m s =
         \<lparr>next_state = initializeGame,
          sent = [Broadcast (MoveHistoryMsg h), Broadcast (EndMsg (if piecesA g' = [] then B else A))],
          thrown = None\<rparr>"
  | (moved) q g' h where
      "findPiece (gameState s) (currentPlayer (gameState s)) character = Some q"
      "processMove (currentPlayer (gameState s)) character m s =
         (Inr True, \<lparr>gameState = g', moveHistory = h\<rparr>, [Broadcast (MoveHistoryMsg h)])"
      "piecesA g' \<noteq> []" "piecesB g' \<noteq> []"
      "currentPlayer g' = currentPlayer (gameState s)"
      "handleMove character m s =
         \<lparr>next_state = \<lparr>gameState = g'\<lparr>currentPlayer := other (currentPlayer (gameState s))\<rparr>,
                         moveHistory = h\<rparr>,
          sent = [Broadcast (MoveHistoryMsg h),
                  Broadcast (Update (g'\<lparr>currentPlayer := other (currentPlayer (gameState s))\<rparr>)),
                  Broadcast (MoveHistoryMsg h)],
          thrown = None\<rparr>"
proof (cases "findPiece (gameState s) (currentPlayer (gameState s)) character")
  case None
  then show ?thesis using unknown by (simp add: handleMove_def)
next
  case (Some q)
  show ?thesis
  proof (rule processMove_cases[of "currentPlayer (gameState s)" character m s])
    fix r
    assume r: "r \<noteq> Inr True"
      and pm: "processMove (currentPlayer (gameState s)) character m s = (r, s, [])"
    show thesis
    proof (cases r)
      case (Inl e)
      have "handleMove character m s = \<lparr>next_state = s, sent = [], thrown = Some e\<rparr>"
        using Some pm Inl by (simp add: handleMove_def)
      then show ?thesis using threw[of q e "gameState s"] Some pm Inl by simp
    next
      case (Inr ok)
      then have ok: "r = Inr False" using r by (cases ok) simp_all
      have "handleMove character m s =
         \<lparr>next_state = s, sent = [Send (ErrorMsg ''Invalid move.'')], thrown = None\<rparr>"
        using Some pm ok by (simp add: handleMove_def)
      then show ?thesis using illegal[of q "gameState s"] Some pm ok by simp
    qed
  next
    fix fr d r g'
    define h where "h = moveHistory s @ [moveDesc (currentPlayer (gameState s)) character m]"
    assume dp: "dispatch character fr (nat (int (fst fr) + fst d), nat (int (snd fr) + snd d)) (gameState s)
         = (r, g')"
      and pm0: "processMove (currentPlayer (gameState s)) character m s =
         (if r = Inr True
          then (Inr True, \<lparr>gameState = g', moveHistory = moveHistory s @ [moveDesc (currentPlayer (gameState s)) character m]\<rparr>,
                [Broadcast (MoveHistoryMsg (moveHistory s @ [moveDesc (currentPlayer (gameState s)) character m]))])
          else (r, s\<lparr>gameState := g'\<rparr>, []))"
    have c: "currentPlayer g' = currentPlayer (gameState s)"
      using dispatch_cur[of character fr "(nat (int (fst fr) + fst d), nat (int (snd fr) + snd d))" "gameState s"] dp
      by simp
    show thesis
    proof (cases r)
      case (Inl e)
      then have pm: "processMove (currentPlayer (gameState s)) character m s = (Inl e, s\<lparr>gameState := g'\<rparr>, [])"
        using pm0 by simp
      have "handleMove character m s = \<lparr>next_state = s\<lparr>gameState := g'\<rparr>, sent = [], thrown = Some e\<rparr>"
        using Some pm by (simp add: handleMove_def)
      then show ?thesis using threw[of q e g'] Some pm c by simp
    next
      case (Inr ok)
      show ?thesis
      proof (cases ok)
        case False
        then have pm: "processMove (currentPlayer (gameState s)) character m s = (Inr False, s\<lparr>gameState := g'\<rparr>, [])"
          using pm0 Inr by simp
        have "handleMove character m s =
           \<lparr>next_state = s\<lparr>gameState := g'\<rparr>, sent = [Send (ErrorMsg ''Invalid move.'')], thrown = None\<rparr>"
          using Some pm by (simp add: handleMove_def)
        then show ?thesis using illegal[of q g'] Some pm c by simp
      next
        case True
        then have pm: "processMove (currentPlayer (gameState s)) character m s =
           (Inr True, \<lparr>gameState = g', moveHistory = h\<rparr>, [Broadcast (MoveHistoryMsg h)])"
          using pm0 Inr by (simp add: h_def)
        show ?thesis
        proof (cases "piecesA g' = [] \<or> piecesB g' = []")
          case True
          have "handleMove character m s =
             \<lparr>next_state = initializeGame,
              sent = [Broadcast (MoveHistoryMsg h), Broadcast (EndMsg (if piecesA g' = [] then B else A))],
              thrown = None\<rparr>"
            using Some pm True by (auto simp: handleMove_def)
          then show ?thesis using won[of q g' h] Some pm True by simp
        next
          case False
          have "handleMove character m s =
             \<lparr>next_state = \<lparr>gameState = g'\<lparr>currentPlayer := other (currentPlayer (gameState s))\<rparr>,
                             moveHistory = h\<rparr>,
              sent = [Broadcast (MoveHistoryMsg h),
                      Broadcast (Update (g'\<lparr>currentPlayer := other (currentPlayer (gameState s))\<rparr>)),
                      Broadcast (MoveHistoryMsg h)],
              thrown = None\<rparr>"
            using Some pm False by (simp add: handleMove_def Let_def)
          then show ?thesis using moved[of q g' h] Some pm False c by simp
        qed
      qed
    qed
  qed
qed

lemma handleMove_rejected_cur:
  "rejected (handleMove character m s) \<or> thrown (handleMove character m s) \<noteq> None \<Longrightarrow>
   currentPlayer (gameState (next_state (handleMove character m s))) = currentPlayer (gameState s)"
  by (rule handleMove_cases[of s character m]) (simp_all add: rejected_def)

lemma handleSetup_rejected_cur:
  "rejected (handleSetup sp s) \<or> thrown (handleSetup sp s) \<noteq> None \<Longrightarrow>
   currentPlayer (gameState (next_state (handleSetup sp s))) = currentPlayer (gameState s)"
  by (cases "pieces (gameState s) (currentPlayer (gameState s)) = []")
     (simp_all add: handleSetup_accepted handleSetup_rejected rejected_def)

section \<open>Pawn labels stay anchored to their roster entries\<close>

lemma anchoredI:
  assumes "length (board g) = 5"
    and "\<And>x y l p. x < 5 \<Longrightarrow> getCell (board g) x y = Some l \<Longrightarrow> l \<noteq> [] \<Longrightarrow>
           playerOfChar (hd l) = Some p \<Longrightarrow> pawnLabel l \<Longrightarrow> \<exists>q\<in>set (pieces g p). row q = x \<and> col q = y"
  shows "anchored g"
  using assms unfolding anchored_def by blast

lemma anchoredD:
  assumes "anchored g" "x < 5" "getCell (board g) x y = Some l" "l \<noteq> []"
    "playerOfChar (hd l) = Some p" "pawnLabel l"
  shows "\<exists>q\<in>set (pieces g p). row q = x \<and> col q = y"
  using assms unfolding anchored_def by blast

lemma anchored_rows: "anchored g \<Longrightarrow> length (board g) = 5"
  by (simp add: anchored_def)

lemma anchored_capturePiece:
  assumes "anchored g" "x < 5"
  shows "anchored (snd (capturePiece (x, y) g))"
proof (rule capturePiece_cases[of g x y])
  assume "capturePiece (x, y) g = (None, g)"
  then show ?thesis using assms by simp
next
  fix l
  assume "capturePiece (x, y) g = (Some TypeError, g)"
  then show ?thesis using assms by simp
next
  fix l p
  assume c: "capturePiece (x, y) g =
         (None, (setPieces p (filter (\<lambda>q. row q \<noteq> x \<or> col q \<noteq> y) (pieces g p)) g)
                  \<lparr>board := setCell (board g) x y None\<rparr>)"
  have len: "x < length (board g)" using assms by (simp add: anchored_def)
  show ?thesis
    unfolding c snd_conv
  proof (rule anchoredI)
    show "length (board ((setPieces p (filter (\<lambda>q. row q \<noteq> x \<or> col q \<noteq> y) (pieces g p)) g)
                  \<lparr>board := setCell (board g) x y None\<rparr>)) = 5"
      using assms by (simp add: anchored_def length_setCell)
  next
    fix x' y' l' p'
    assume h: "x' < 5"
      "getCell (board ((setPieces p (filter (\<lambda>q. row q \<noteq> x \<or> col q \<noteq> y) (pieces g p)) g)
                  \<lparr>board := setCell (board g) x y None\<rparr>)) x' y' = Some l'"
      "l' \<noteq> []" "playerOfChar (hd l') = Some p'" "pawnLabel l'"
    from h(2) len have ne: "\<not> (x' = x \<and> y' = y)" and old: "getCell (board g) x' y' = Some l'"
      by (auto simp: getCell_setCell split: if_splits)
    from anchoredD[OF assms(1) h(1) old h(3,4,5)]
    obtain q where q: "q \<in> set (pieces g p')" "row q = x'" "col q = y'" by blast
    with ne show "\<exists>q\<in>set (pieces ((setPieces p (filter (\<lambda>q. row q \<noteq> x \<or> col q \<noteq> y) (pieces g p)) g)
                  \<lparr>board := setCell (board g) x y None\<rparr>) p'). row q = x' \<and> col q = y'"
      by (auto intro!: bexI[of _ q])
  qed
qed

lemma anchored_heroPath: "anchored g \<Longrightarrow> anchored (snd (heroPath f d is g))"
  by (rule heroPath_preserves[where P = anchored]) (simp_all add: anchored_capturePiece)

text \<open>The path loop only ever empties cells, and never touches the mover's roster.\<close>

lemma capturePiece_cell:
  "x < length (board g) \<Longrightarrow>
   getCell (board (snd (capturePiece (x, y) g))) x' y' = getCell (board g) x' y'
   \<or> getCell (board (snd (capturePiece (x, y) g))) x' y' = None"
  by (rule capturePiece_cases[of g x y]) (auto simp: getCell_setCell)

lemma heroPath_cell:
  assumes "length (board g) = 5"
  shows "getCell (board (snd (heroPath f d is g))) x' y' = getCell (board g) x' y'
       \<or> getCell (board (snd (heroPath f d is g))) x' y' = None"
proof -
  have "length (board (snd (heroPath f d is g))) = 5
      \<and> (getCell (board (snd (heroPath f d is g))) x' y' = getCell (board g) x' y'
       \<or> getCell (board (snd (heroPath f d is g))) x' y' = None)"
  proof (rule heroPath_preserves[where P = "\<lambda>h. length (board h) = 5
      \<and> (getCell (board h) x' y' = getCell (board g) x' y' \<or> getCell (board h) x' y' = None)"])
    fix h :: match_state and x y :: nat
    assume "x < 5" and "length (board h) = 5
      \<and> (getCell (board h) x' y' = getCell (board g) x' y' \<or> getCell (board h) x' y' = None)"
    then show "length (board (snd (capturePiece (x, y) h))) = 5
      \<and> (getCell (board (snd (capturePiece (x, y) h))) x' y' = getCell (board g) x' y'
         \<or> getCell (board (snd (capturePiece (x, y) h))) x' y' = None)"
      using capturePiece_cell[of x h y x' y'] capturePiece_rows[of "(x, y)" h] by auto
  next
    show "length (board g) = 5
      \<and> (getCell (board g) x' y' = getCell (board g) x' y' \<or> getCell (board g) x' y' = None)"
      using assms by simp
  qed
  then show ?thesis by simp
qed

lemma playerOfChar_playerChar: "playerOfChar c = Some p \<Longrightarrow> c = playerChar p"
  by (cases p) (auto simp: playerOfChar_def playerChar_def split: if_splits)

lemma capturePiece_other_pieces:
  assumes "heldByOther (getCell (board g) x y) X"
  shows "pieces (snd (capturePiece (x, y) g)) X = pieces g X"
proof (rule capturePiece_cases[of g x y])
  fix l p
  assume l: "getCell (board g) x y = Some l" "l \<noteq> []" "playerOfChar (hd l) = Some p"
    and c: "capturePiece (x, y) g =
         (None, (setPieces p (filter (\<lambda>q. row q \<noteq> x \<or> col q \<noteq> y) (pieces g p)) g)
                  \<lparr>board := setCell (board g) x y None\<rparr>)"
  from assms l have "p \<noteq> X"
    using playerOfChar_playerChar[of "hd l" p] by (auto simp: heldByOther_def)
  then show ?thesis by (simp add: c)
qed simp_all

lemma heroPath_own_pieces:
  "pieces (snd (heroPath f d is g)) (currentPlayer g) = pieces g (currentPlayer g)"
proof -
  have "currentPlayer (snd (heroPath f d is g)) = currentPlayer g
      \<and> pieces (snd (heroPath f d is g)) (currentPlayer g) = pieces g (currentPlayer g)"
    by (rule heroPath_preserves[where P = "\<lambda>h. currentPlayer h = currentPlayer g
          \<and> pieces h (currentPlayer g) = pieces g (currentPlayer g)"])
       (auto simp: capturePiece_cur capturePiece_other_pieces)
  then show ?thesis by simp
qed

lemma anchored_board_write:
  assumes "anchored g" "x < 5"
    and "\<And>l. v = Some l \<Longrightarrow> \<not> pawnLabel l"
  shows "anchored (g\<lparr>board := setCell (board g) x y v\<rparr>)"
proof (rule anchoredI)
  show "length (board (g\<lparr>board := setCell (board g) x y v\<rparr>)) = 5"
    using assms(1) by (simp add: anchored_def length_setCell)
next
  fix x' y' l p
  assume h: "x' < 5" "getCell (board (g\<lparr>board := setCell (board g) x y v\<rparr>)) x' y' = Some l"
    "l \<noteq> []" "playerOfChar (hd l) = Some p" "pawnLabel l"
  have len: "x < length (board g)" using assms by (simp add: anchored_def)
  from h(2,5) len assms(3) have "getCell (board g) x' y' = Some l"
    by (auto simp: getCell_setCell split: if_splits)
  from anchoredD[OF assms(1) h(1) this h(3,4,5)]
  show "\<exists>q\<in>set (pieces (g\<lparr>board := setCell (board g) x y v\<rparr>) p). row q = x' \<and> col q = y'"
    by simp
qed

lemma anchored_moveHero1:
  assumes "anchored g" "fx < 5" "x < 5"
    and "\<And>l. getCell (board g) fx fy = Some l \<Longrightarrow> \<not> pawnLabel l"
  shows "anchored (snd (moveHero1 (fx, fy) (x, y) g))"
proof (cases "heldBy (getCell (board g) x y) (currentPlayer g)")
  case True
  then show ?thesis using assms(1) by (simp add: moveHero1_unfold)
next
  case False
  obtain r g1 where hp:
    "heroPath (int fx, int fy) (sgn (int x - int fx), sgn (int y - int fy)) [1, 2] g = (r, g1)"
    by force
  have a1: "anchored g1"
    using anchored_heroPath[OF assms(1), of "(int fx, int fy)"
        "(sgn (int x - int fx), sgn (int y - int fy))" "[1, 2]"] hp by simp
  have "getCell (board g1) fx fy = getCell (board g) fx fy \<or> getCell (board g1) fx fy = None"
    using heroPath_cell[OF anchored_rows[OF assms(1)], of "(int fx, int fy)"
        "(sgn (int x - int fx), sgn (int y - int fy))" "[1, 2]" fx fy] hp by simp
  then have mover: "\<And>l. getCell (board g1) fx fy = Some l \<Longrightarrow> \<not> pawnLabel l"
    using assms(4) by auto
  have a2: "anchored (g1\<lparr>board := setCell (board g1) x y (getCell (board g1) fx fy)\<rparr>)"
    by (rule anchored_board_write[OF a1 assms(3)]) (rule mover)
  have a3: "anchored (g1\<lparr>board := setCell (setCell (board g1) x y (getCell (board g1) fx fy)) fx fy None\<rparr>)"
    using anchored_board_write[OF a2 assms(2), of None fy] by simp
  show ?thesis
  proof (cases r)
    case (Inl e)
    then show ?thesis using False hp a1 by (simp add: moveHero1_unfold)
  next
    case (Inr ok)
    then show ?thesis using False hp a1 a3 by (cases ok) (simp_all add: moveHero1_unfold)
  qed
qed

lemma moveHero1_own_pieces:
  "pieces (snd (moveHero1 (fx, fy) (x, y) g)) (currentPlayer g) = pieces g (currentPlayer g)"
proof -
  obtain r g1 where hp:
    "heroPath (int fx, int fy) (sgn (int x - int fx), sgn (int y - int fy)) [1, 2] g = (r, g1)"
    by force
  have "pieces g1 (currentPlayer g) = pieces g (currentPlayer g)"
    using heroPath_own_pieces[of "(int fx, int fy)"
        "(sgn (int x - int fx), sgn (int y - int fy))" "[1, 2]" g] hp by simp
  then show ?thesis using hp
    by (simp add: moveHero1_unfold split: sum.splits bool.splits)
qed

text \<open>
  \<^verbatim>\<open>movePawn\<close>, when it does not throw: the destination ends up falsy, the origin empty,
  and the roster of the label's owner loses the entries recorded at the destination.
\<close>

lemma movePawn_cases [consumes 0, case_names friendly crash blank took]:
  obtains
    (friendly) "movePawn (fx, fy) (x, y) g = (Inr False, g)"
  | (crash) e g' where "movePawn (fx, fy) (x, y) g = (Inl e, g')"
  | (blank) "\<not> truthy (getCell (setCell (setCell (board g) x y (getCell (board g) fx fy)) fx fy None) x y)"
      "movePawn (fx, fy) (x, y) g =
         (Inr True, g\<lparr>board := setCell (setCell (board g) x y (getCell (board g) fx fy)) fx fy None\<rparr>)"
  | (took) l p where
      "getCell (setCell (setCell (board g) x y (getCell (board g) fx fy)) fx fy None) x y = Some l"
      "l \<noteq> []" "playerOfChar (hd l) = Some p"
      "movePawn (fx, fy) (x, y) g =
         (Inr True,
          (setPieces p (filter (\<lambda>q. row q \<noteq> x \<or> col q \<noteq> y) (pieces g p)) g)
            \<lparr>board := setCell (setCell (setCell (board g) x y (getCell (board g) fx fy)) fx fy None) x y None\<rparr>)"
proof (cases "heldBy (getCell (board g) x y) (currentPlayer g)")
  case True
  then show ?thesis using friendly by (simp add: movePawn_def)
next
  case False
  define b2 where "b2 = setCell (setCell (board g) x y (getCell (board g) fx fy)) fx fy None"
  have mp: "movePawn (fx, fy) (x, y) g =
      (case capturePiece (x, y) (g\<lparr>board := b2\<rparr>) of
         (Some err, g') \<Rightarrow> (Inl err, g') | (None, g') \<Rightarrow> (Inr True, g'))"
    using False by (simp add: movePawn_def Let_def b2_def split: prod.splits option.splits)
  show ?thesis
  proof (rule capturePiece_cases[of "g\<lparr>board := b2\<rparr>" x y])
    assume "\<not> truthy (getCell (board (g\<lparr>board := b2\<rparr>)) x y)"
      "capturePiece (x, y) (g\<lparr>board := b2\<rparr>) = (None, g\<lparr>board := b2\<rparr>)"
    then show ?thesis using blank mp by (simp add: b2_def)
  next
    fix l
    assume "capturePiece (x, y) (g\<lparr>board := b2\<rparr>) = (Some TypeError, g\<lparr>board := b2\<rparr>)"
    then show ?thesis using crash mp by simp
  next
    fix l p
    assume "getCell (board (g\<lparr>board := b2\<rparr>)) x y = Some l" "l \<noteq> []" "playerOfChar (hd l) = Some p"
      "capturePiece (x, y) (g\<lparr>board := b2\<rparr>) =
         (None, (setPieces p (filter (\<lambda>q. row q \<noteq> x \<or> col q \<noteq> y) (pieces (g\<lparr>board := b2\<rparr>) p)) (g\<lparr>board := b2\<rparr>))
                  \<lparr>board := setCell (board (g\<lparr>board := b2\<rparr>)) x y None\<rparr>)"
    then show ?thesis using took[of l p] mp
      by (cases p) (simp_all add: b2_def setPieces_def)
  qed
qed

lemma moved_cell:
  assumes "fx < length b" "x < length b"
  shows "getCell (setCell (setCell b x y (getCell b fx fy)) fx fy None) x' y' =
     (if x' = fx \<and> y' = fy then None
      else if x' = x \<and> y' = y then getCell b fx fy
      else getCell b x' y')"
  using assms by (simp add: getCell_setCell length_setCell)

lemma anchored_movePawn:
  assumes "anchored g" "fx < 5" "x < 5"
    and "movePawn (fx, fy) (x, y) g = (Inr ok, g')"
  shows "anchored g'"
proof (rule movePawn_cases[of fx fy x y g])
  assume "movePawn (fx, fy) (x, y) g = (Inr False, g)"
  then show ?thesis using assms by simp
next
  fix e h
  assume "movePawn (fx, fy) (x, y) g = (Inl e, h)"
  then show ?thesis using assms(4) by simp
next
  have len: "fx < length (board g)" "x < length (board g)"
    using assms by (simp_all add: anchored_def)
  assume falsy: "\<not> truthy (getCell (setCell (setCell (board g) x y (getCell (board g) fx fy)) fx fy None) x y)"
    and mp: "movePawn (fx, fy) (x, y) g =
         (Inr True, g\<lparr>board := setCell (setCell (board g) x y (getCell (board g) fx fy)) fx fy None\<rparr>)"
  have "anchored (g\<lparr>board := setCell (setCell (board g) x y (getCell (board g) fx fy)) fx fy None\<rparr>)"
  proof (rule anchoredI)
    show "length (board (g\<lparr>board := setCell (setCell (board g) x y (getCell (board g) fx fy)) fx fy None\<rparr>)) = 5"
      using assms(1) by (simp add: anchored_def length_setCell)
  next
    fix x' y' l p
    assume h: "x' < 5"
      "getCell (board (g\<lparr>board := setCell (setCell (board g) x y (getCell (board g) fx fy)) fx fy None\<rparr>)) x' y' = Some l"
      "l \<noteq> []" "playerOfChar (hd l) = Some p" "pawnLabel l"
    have "\<not> (x' = x \<and> y' = y)"
      using falsy h(2,3) by (auto simp: truthy_def)
    with h(2) have "getCell (board g) x' y' = Some l"
      by (simp add: moved_cell[OF len] split: if_splits)
    from anchoredD[OF assms(1) h(1) this h(3,4,5)]
    show "\<exists>q\<in>set (pieces (g\<lparr>board := setCell (setCell (board g) x y (getCell (board g) fx fy)) fx fy None\<rparr>) p).
            row q = x' \<and> col q = y'"
      by simp
  qed
  then show ?thesis using mp assms(4) by simp
next
  fix l p
  have len: "fx < length (board g)" "x < length (board g)"
    using assms by (simp_all add: anchored_def)
  define b3 where "b3 = setCell (setCell (setCell (board g) x y (getCell (board g) fx fy)) fx fy None) x y None"
  assume mp: "movePawn (fx, fy) (x, y) g =
         (Inr True,
          (setPieces p (filter (\<lambda>q. row q \<noteq> x \<or> col q \<noteq> y) (pieces g p)) g)
            \<lparr>board := setCell (setCell (setCell (board g) x y (getCell (board g) fx fy)) fx fy None) x y None\<rparr>)"
  have "anchored ((setPieces p (filter (\<lambda>q. row q \<noteq> x \<or> col q \<noteq> y) (pieces g p)) g)\<lparr>board := b3\<rparr>)"
  proof (rule anchoredI)
    show "length (board ((setPieces p (filter (\<lambda>q. row q \<noteq> x \<or> col q \<noteq> y) (pieces g p)) g)\<lparr>board := b3\<rparr>)) = 5"
      using assms(1) by (simp add: anchored_def length_setCell b3_def)
  next
    fix x' y' l' p'
    assume h: "x' < 5"
      "getCell (board ((setPieces p (filter (\<lambda>q. row q \<noteq> x \<or> col q \<noteq> y) (pieces g p)) g)\<lparr>board := b3\<rparr>)) x' y' = Some l'"
      "l' \<noteq> []" "playerOfChar (hd l') = Some p'" "pawnLabel l'"
    from h(2) len have ne: "\<not> (x' = x \<and> y' = y)" and old: "getCell (board g) x' y' = Some l'"
      by (auto simp: b3_def getCell_setCell length_setCell split: if_splits)
    from anchoredD[OF assms(1) h(1) old h(3,4,5)]
    obtain q where q: "q \<in> set (pieces g p')" "row q = x'" "col q = y'" by blast
    with ne show "\<exists>q\<in>set (pieces ((setPieces p (filter (\<lambda>q. row q \<noteq> x \<or> col q \<noteq> y) (pieces g p)) g)\<lparr>board := b3\<rparr>) p').
            row q = x' \<and> col q = y'"
      by (auto intro!: bexI[of _ q])
  qed
  then show ?thesis using mp assms(4) by (simp add: b3_def)
qed

lemma movePawn_keeps_roster:
  assumes "anchored g" "fx < 5" "x < 5" "(fx, fy) \<noteq> (x, y)"
    and "getCell (board g) fx fy = Some c" "c \<noteq> []" "pawnLabel c"
    and "movePawn (fx, fy) (x, y) g = (Inr ok, g')"
    and "pieces g X \<noteq> []"
  shows "pieces g' X \<noteq> []"
proof (rule movePawn_cases[of fx fy x y g])
  assume "movePawn (fx, fy) (x, y) g = (Inr False, g)"
  then show ?thesis using assms by simp
next
  fix e h
  assume "movePawn (fx, fy) (x, y) g = (Inl e, h)"
  then show ?thesis using assms(8) by simp
next
  assume "movePawn (fx, fy) (x, y) g =
         (Inr True, g\<lparr>board := setCell (setCell (board g) x y (getCell (board g) fx fy)) fx fy None\<rparr>)"
  then show ?thesis using assms(8,9) by auto
next
  fix l p
  have len: "fx < length (board g)" "x < length (board g)"
    using assms by (simp_all add: anchored_def)
  assume l: "getCell (setCell (setCell (board g) x y (getCell (board g) fx fy)) fx fy None) x y = Some l"
    "playerOfChar (hd l) = Some p"
    and mp: "movePawn (fx, fy) (x, y) g =
         (Inr True,
          (setPieces p (filter (\<lambda>q. row q \<noteq> x \<or> col q \<noteq> y) (pieces g p)) g)
            \<lparr>board := setCell (setCell (setCell (board g) x y (getCell (board g) fx fy)) fx fy None) x y None\<rparr>)"
  have "getCell (setCell (setCell (board g) x y (getCell (board g) fx fy)) fx fy None) x y
      = getCell (board g) fx fy"
    using assms(4) by (auto simp: moved_cell[OF len])
  with l(1) assms(5) have "l = c" by simp
  with l(2) have owner: "playerOfChar (hd c) = Some p" by simp
  from anchoredD[OF assms(1,2,5,6) owner assms(7)]
  obtain q where q: "q \<in> set (pieces g p)" "row q = fx" "col q = fy" by blast
  with assms(4) have "q \<in> set (filter (\<lambda>q. row q \<noteq> x \<or> col q \<noteq> y) (pieces g p))"
    by auto
  then have "filter (\<lambda>q. row q \<noteq> x \<or> col q \<noteq> y) (pieces g p) \<noteq> []"
    by (metis empty_iff empty_set)
  then show ?thesis using mp assms(8,9) by auto
qed

text \<open>The position scan returns a cell of the 5x5 grid that holds exactly the label.\<close>

lemma fold_last_match:
  "fold (\<lambda>(x, y) acc. if P x y then Some (x, y) else acc) xs a = Some (x, y) \<Longrightarrow>
   a = Some (x, y) \<or> ((x, y) \<in> set xs \<and> P x y)"
proof (induction xs arbitrary: a)
  case Nil
  then show ?case by simp
next
  case (Cons z zs)
  obtain u v where z: "z = (u, v)" by (cases z)
  from Cons.prems have "fold (\<lambda>(x, y) acc. if P x y then Some (x, y) else acc) zs
      (if P u v then Some (u, v) else a) = Some (x, y)"
    by (simp add: z)
  from Cons.IH[OF this]
  have "(if P u v then Some (u, v) else a) = Some (x, y) \<or> ((x, y) \<in> set zs \<and> P x y)" .
  then show ?case by (auto simp: z split: if_splits)
qed

lemma findFrom_Some:
  assumes "findFrom b character = Some (x, y)"
  shows "x < 5 \<and> y < 5 \<and> getCell b x y = Some character"
proof -
  from fold_last_match[of "\<lambda>x y. getCell b x y = Some character" scanOrder None x y] assms
  have "(x, y) \<in> set scanOrder \<and> getCell b x y = Some character"
    by (simp add: findFrom_def)
  then show ?thesis by (auto simp: scanOrder_def)
qed

lemma directions_nonzero: "directions p m = Some d \<Longrightarrow> d \<noteq> (0, 0)"
  by (auto simp: directions_def split: if_splits)

lemma pawnLabel_nonempty: "pawnLabel l \<Longrightarrow> l \<noteq> []"
  by (auto simp: pawnLabel_def field1_def)

lemma anchored_cong:
  "board g' = board g \<Longrightarrow> (\<And>p. pieces g' p = pieces g p) \<Longrightarrow> anchored g' = anchored g"
  by (simp add: anchored_def)

lemma anchored_dispatch:
  assumes "anchored g" "fx < 5" "x < 5"
    and "getCell (board g) fx fy = Some character"
    and "dispatch character (fx, fy) (x, y) g = (Inr ok, g')"
  shows "anchored g'"
proof (cases "field1 character")
  case None
  then show ?thesis using assms(5) by (simp add: dispatch_def)
next
  case (Some f)
  show ?thesis
  proof (cases "f \<noteq> [] \<and> hd f = CHR ''P''")
    case True
    then have "movePawn (fx, fy) (x, y) g = (Inr ok, g')"
      using assms(5) Some by (simp add: dispatch_def)
    from anchored_movePawn[OF assms(1,2,3) this] show ?thesis .
  next
    case notPawn: False
    show ?thesis
    proof (cases "f \<noteq> [] \<and> hd f = CHR ''H''")
      case True
      then have mh: "moveHero1 (fx, fy) (x, y) g = (Inr ok, g')"
        using assms(5) Some notPawn by (simp add: dispatch_def moveHero2_eq split: if_splits)
      have "\<not> pawnLabel character"
        using Some notPawn by (simp add: pawnLabel_def)
      then have "\<And>l. getCell (board g) fx fy = Some l \<Longrightarrow> \<not> pawnLabel l"
        using assms(4) by simp
      from anchored_moveHero1[OF assms(1,2,3) this, of fy y] mh show ?thesis by simp
    next
      case False
      then show ?thesis using assms(1,5) Some notPawn by (auto simp: dispatch_def split: if_splits)
    qed
  qed
qed

lemma dispatch_keeps_roster:
  assumes "anchored g" "fx < 5" "x < 5" "(fx, fy) \<noteq> (x, y)"
    and "getCell (board g) fx fy = Some character"
    and "dispatch character (fx, fy) (x, y) g = (Inr ok, g')"
    and "pieces g (currentPlayer g) \<noteq> []"
  shows "pieces g' (currentPlayer g) \<noteq> []"
proof (cases "field1 character")
  case None
  then show ?thesis using assms(6) by (simp add: dispatch_def)
next
  case (Some f)
  show ?thesis
  proof (cases "f \<noteq> [] \<and> hd f = CHR ''P''")
    case True
    then have mp: "movePawn (fx, fy) (x, y) g = (Inr ok, g')"
      using assms(6) Some by (simp add: dispatch_def)
    have pl: "pawnLabel character" using Some True by (simp add: pawnLabel_def)
    from movePawn_keeps_roster[OF assms(1,2,3,4,5) pawnLabel_nonempty[OF pl] pl mp assms(7)]
    show ?thesis .
  next
    case notPawn: False
    show ?thesis
    proof (cases "f \<noteq> [] \<and> hd f = CHR ''H''")
      case True
      then have mh: "moveHero1 (fx, fy) (x, y) g = (Inr ok, g')"
        using assms(6) Some notPawn by (simp add: dispatch_def moveHero2_eq split: if_splits)
      from moveHero1_own_pieces[of fx fy x y g] mh assms(7) show ?thesis by simp
    next
      case False
      then show ?thesis using assms(6,7) Some notPawn by (auto simp: dispatch_def split: if_splits)
    qed
  qed
qed

lemma step_differs:
  assumes "directions p m = Some d"
    and "0 \<le> int fx + fst d" "0 \<le> int fy + snd d"
  shows "(fx, fy) \<noteq> (nat (int fx + fst d), nat (int fy + snd d))"
proof
  assume "(fx, fy) = (nat (int fx + fst d), nat (int fy + snd d))"
  then have "int fx = int fx + fst d" "int fy = int fy + snd d"
    using assms(2,3) by auto
  then have "d = (0, 0)" by (cases d) simp
  with directions_nonzero[OF assms(1)] show False by simp
qed

lemma anchored_processMove:
  assumes "anchored (gameState s)"
    and "processMove p character m s = (Inr ok, s', out)"
  shows "anchored (gameState s')"
proof (rule processMove_cases[of p character m s])
  fix r
  assume "processMove p character m s = (r, s, [])"
  then show ?thesis using assms by simp
next
  fix fr d r g'
  assume found: "findFrom (board (gameState s)) character = Some fr"
    and inside: "0 \<le> int (fst fr) + fst d" "int (fst fr) + fst d < 5"
    and dp: "dispatch character fr (nat (int (fst fr) + fst d), nat (int (snd fr) + snd d)) (gameState s)
         = (r, g')"
    and pm: "processMove p character m s =
         (if r = Inr True
          then (Inr True, \<lparr>gameState = g', moveHistory = moveHistory s @ [moveDesc p character m]\<rparr>,
                [Broadcast (MoveHistoryMsg (moveHistory s @ [moveDesc p character m]))])
          else (r, s\<lparr>gameState := g'\<rparr>, []))"
  obtain fx fy where fr: "fr = (fx, fy)" by (cases fr)
  from findFrom_Some[OF found[unfolded fr]]
  have at: "fx < 5" "getCell (board (gameState s)) fx fy = Some character" by simp_all
  have r: "r = Inr ok" and s': "gameState s' = g'"
    using pm assms(2) by (auto split: if_splits)
  have "nat (int fx + fst d) < 5" using inside by (simp add: fr)
  from anchored_dispatch[OF assms(1) at(1) this at(2)] dp r
  have "anchored g'" by (simp add: fr)
  then show ?thesis using s' by simp
qed

lemma processMove_keeps_roster:
  assumes "anchored (gameState s)"
    and "processMove (currentPlayer (gameState s)) character m s = (Inr True, s', out)"
    and "pieces (gameState s) (currentPlayer (gameState s)) \<noteq> []"
  shows "pieces (gameState s') (currentPlayer (gameState s)) \<noteq> []"
proof (rule processMove_cases[of "currentPlayer (gameState s)" character m s])
  fix r
  assume "r \<noteq> Inr True" "processMove (currentPlayer (gameState s)) character m s = (r, s, [])"
  then show ?thesis using assms by simp
next
  fix fr d r g'
  assume found: "findFrom (board (gameState s)) character = Some fr"
    and dir: "directions (currentPlayer (gameState s)) m = Some d"
    and inside: "0 \<le> int (fst fr) + fst d" "int (fst fr) + fst d < 5"
      "0 \<le> int (snd fr) + snd d"
    and dp: "dispatch character fr (nat (int (fst fr) + fst d), nat (int (snd fr) + snd d)) (gameState s)
         = (r, g')"
    and pm: "processMove (currentPlayer (gameState s)) character m s =
         (if r = Inr True
          then (Inr True, \<lparr>gameState = g', moveHistory = moveHistory s @ [moveDesc (currentPlayer (gameState s)) character m]\<rparr>,
                [Broadcast (MoveHistoryMsg (moveHistory s @ [moveDesc (currentPlayer (gameState s)) character m]))])
          else (r, s\<lparr>gameState := g'\<rparr>, []))"
  obtain fx fy where fr: "fr = (fx, fy)" by (cases fr)
  from findFrom_Some[OF found[unfolded fr]]
  have at: "fx < 5" "getCell (board (gameState s)) fx fy = Some character" by simp_all
  have r: "r = Inr True" and s': "gameState s' = g'"
    using pm assms(2) by (auto split: if_splits)
  have x5: "nat (int fx + fst d) < 5" using inside by (simp add: fr)
  have ne: "(fx, fy) \<noteq> (nat (int fx + fst d), nat (int fy + snd d))"
    using step_differs[OF dir, of fx fy] inside by (simp add: fr)
  from dispatch_keeps_roster[OF assms(1) at(1) x5 ne at(2) _ assms(3)] dp r
  have "pieces g' (currentPlayer (gameState s)) \<noteq> []" by (simp add: fr)
  then show ?thesis using s' by simp
qed

lemma anchored_initializeGame: "anchored (gameState initializeGame)"
  by (rule anchoredI)
     (auto simp: initializeGame_def emptyBoard_def getCell_def js_get_def split: if_splits)

lemma anchored_handleMove:
  assumes "anchored (gameState s)" "thrown (handleMove character m s) = None"
  shows "anchored (gameState (next_state (handleMove character m s)))"
proof (rule handleMove_cases[of s character m])
  assume "handleMove character m s =
         \<lparr>next_state = s, sent = [Send (ErrorMsg ''Invalid character.'')], thrown = None\<rparr>"
  then show ?thesis using assms by simp
next
  fix q e g'
  assume "handleMove character m s = \<lparr>next_state = s\<lparr>gameState := g'\<rparr>, sent = [], thrown = Some e\<rparr>"
  then show ?thesis using assms(2) by simp
next
  fix q g'
  assume pm: "processMove (currentPlayer (gameState s)) character m s = (Inr False, s\<lparr>gameState := g'\<rparr>, [])"
    and hm: "handleMove character m s =
         \<lparr>next_state = s\<lparr>gameState := g'\<rparr>, sent = [Send (ErrorMsg ''Invalid move.'')], thrown = None\<rparr>"
  from anchored_processMove[OF assms(1) pm] show ?thesis by (simp add: hm)
next
  fix q h and g' :: match_state
  assume "handleMove character m s =
         \<lparr>next_state = initializeGame,
          sent = [Broadcast (MoveHistoryMsg h), Broadcast (EndMsg (if piecesA g' = [] then B else A))],
          thrown = None\<rparr>"
  then show ?thesis by (simp add: anchored_initializeGame)
next
  fix q g' h
  assume pm: "processMove (currentPlayer (gameState s)) character m s =
         (Inr True, \<lparr>gameState = g', moveHistory = h\<rparr>, [Broadcast (MoveHistoryMsg h)])"
    and hm: "handleMove character m s =
         \<lparr>next_state = \<lparr>gameState = g'\<lparr>currentPlayer := other (currentPlayer (gameState s))\<rparr>,
                         moveHistory = h\<rparr>,
          sent = [Broadcast (MoveHistoryMsg h),
                  Broadcast (Update (g'\<lparr>currentPlayer := other (currentPlayer (gameState s))\<rparr>)),
                  Broadcast (MoveHistoryMsg h)],
          thrown = None\<rparr>"
  from anchored_processMove[OF assms(1) pm] have "anchored g'" by simp
  then have "anchored (g'\<lparr>currentPlayer := other (currentPlayer (gameState s))\<rparr>)"
    by (simp add: anchored_cong[of "g'\<lparr>currentPlayer := other (currentPlayer (gameState s))\<rparr>" g'])
  then show ?thesis by (simp add: hm)
qed

lemma playerOfChar_label: "playerOfChar (hd (label X piece)) = Some p \<Longrightarrow> p = X"
  by (cases X) (auto simp: label_def playerChar_def playerOfChar_def split: if_splits)

lemma anchored_handleSetup:
  assumes "anchored (gameState s)"
  shows "anchored (gameState (next_state (handleSetup sp s)))"
proof (cases "pieces (gameState s) (currentPlayer (gameState s)) = []")
  case False
  then show ?thesis using assms by (simp add: handleSetup_rejected)
next
  case True
  define X where "X = currentPlayer (gameState s)"
  define g' where "g' = gameState (next_state (handleSetup sp s))"
  note acc = handleSetup_accepted[OF True, of sp, folded g'_def X_def]
  have rows: "homeRow X < length (board (gameState s))"
    using assms by (cases X) (simp_all add: homeRow_def anchored_def)
  show ?thesis
    unfolding g'_def[symmetric]
  proof (rule anchoredI)
    show "length (board g') = 5"
      using assms by (simp add: acc(4) placeAll_length anchored_def)
  next
    fix x y l p
    assume h: "x < 5" "getCell (board g') x y = Some l" "l \<noteq> []"
      "playerOfChar (hd l) = Some p" "pawnLabel l"
    show "\<exists>q\<in>set (pieces g' p). row q = x \<and> col q = y"
    proof (cases "x = homeRow X \<and> y < length sp")
      case True
      then have "l = label X (sp ! y)"
        using h(2) rows by (simp add: acc(4) placeAll_cell)
      with h(4) have "p = X" using playerOfChar_label by simp
      have "fst (placeAll X 0 sp (board (gameState s))) ! y \<in> set (pieces g' X)"
        using True by (simp add: acc(5) placeAll_pieces_length)
      then show ?thesis
        using True \<open>p = X\<close> by (auto simp: placeAll_pieces_nth intro!: bexI[of _ "fst (placeAll X 0 sp (board (gameState s))) ! y"])
    next
      case False
      then have old: "getCell (board (gameState s)) x y = Some l"
        using h(2) rows by (auto simp: acc(4) placeAll_cell split: if_splits)
      from anchoredD[OF assms h(1) old h(3,4,5)]
      obtain q where q: "q \<in> set (pieces (gameState s) p)" "row q = x" "col q = y" by blast
      then have "p \<noteq> X" using True by (auto simp: X_def)
      then show ?thesis using q by (auto simp: acc(5))
    qed
  qed
qed

lemma reachable_anchored: "reachable s \<Longrightarrow> anchored (gameState s)"
proof (induction rule: reachable.induct)
  case reachable_init
  show ?case by (rule anchored_initializeGame)
next
  case (reachable_step s c)
  then show ?case
    by (cases c)
       (simp_all add: handle_def anchored_handleSetup anchored_handleMove resetGame_def
          anchored_initializeGame)
qed

lemma findPiece_Some_roster: "findPiece g p character = Some q \<Longrightarrow> pieces g p \<noteq> []"
  by (auto simp: findPiece_def)

section \<open>What the handlers do on concrete matches\<close>

text \<open>
  Claim C1 (board and rosters mirror each other in every reachable state). The code
  never updates \<^verbatim>\<open>row\<close> and \<^verbatim>\<open>col\<close> of a roster entry after setup. After both players
  set up a hero and player A moves \<^verbatim>\<open>A-H1\<close> forward, the piece stands on (1,0) on the
  board while its roster entry still says (0,0), a cell that is now empty.
\<close>

theorem C1_roster_position_stale:
  "run [Setup [''H1''], Setup [''H1''], Move ''A-H1'' ''F''] initializeGame =
     Some \<lparr> gameState =
              \<lparr> board =
                  [[None, None, None, None, None],
                   [Some ''A-H1'', None, None, None, None],
                   [None, None, None, None, None],
                   [None, None, None, None, None],
                   [Some ''B-H1'', None, None, None, None]],
                piecesA = [\<lparr>name = ''H1'', row = 0, col = 0\<rparr>],
                piecesB = [\<lparr>name = ''H1'', row = 4, col = 0\<rparr>],
                currentPlayer = B \<rparr>,
            moveHistory = [''A-H1: F''] \<rparr>"
  by code_simp

text \<open>
  Claim C2 (an accepted short-range move into an enemy piece leaves the mover on the
  destination, the origin empty, and the enemy removed from its roster). The match
  \<open>pawnFacesHero\<close> is reached by ordinary play. There the move of \<^verbatim>\<open>A-P1\<close> by \<^verbatim>\<open>FR\<close>
  into \<^verbatim>\<open>B-H1\<close> on (1,2) is accepted, but \<^verbatim>\<open>movePawn\<close> calls \<^verbatim>\<open>capturePiece(to)\<close> after it
  has written the mover into the destination: the destination ends up empty, the
  pawn is on no cell, and player B's roster still has all four entries.
\<close>

theorem C2_pawn_capture_erases_mover:
  "run [Setup [''H1'', ''P1''], Setup [''P1'', ''P2'', ''P3'', ''H1''],
        Move ''A-H1'' ''F'', Move ''B-H1'' ''FR'', Move ''A-H1'' ''F'',
        Move ''B-H1'' ''FR'', Move ''A-H1'' ''B'', Move ''B-H1'' ''FL''] initializeGame
     = Some pawnFacesHero
   \<and> thrown (handle (Move ''A-P1'' ''FR'') pawnFacesHero) = None
   \<and> gameState (next_state (handle (Move ''A-P1'' ''FR'') pawnFacesHero)) =
       \<lparr> board =
           [[None, None, None, None, None],
            [Some ''A-H1'', None, None, None, None],
            [None, None, None, None, None],
            [None, None, None, None, None],
            [Some ''B-P1'', Some ''B-P2'', Some ''B-P3'', None, None]],
         piecesA = [\<lparr>name = ''H1'', row = 0, col = 0\<rparr>, \<lparr>name = ''P1'', row = 0, col = 1\<rparr>],
         piecesB = [\<lparr>name = ''P1'', row = 4, col = 0\<rparr>, \<lparr>name = ''P2'', row = 4, col = 1\<rparr>,
                    \<lparr>name = ''P3'', row = 4, col = 2\<rparr>, \<lparr>name = ''H1'', row = 4, col = 3\<rparr>],
         currentPlayer = B \<rparr>"
  by code_simp

text \<open>
  Claim C3 (an accepted long-range move relocates the mover to the final cell of the
  two-step projection). In \<open>heroDuel\<close> the move of \<^verbatim>\<open>A-H1\<close> by \<^verbatim>\<open>F\<close> from (0,0) is
  accepted and both path cells (1,0) and (2,0) are on the board and empty, yet the
  hero lands on (1,0): \<^verbatim>\<open>processMove\<close> hands \<^verbatim>\<open>moveHero1\<close> the one-step cell as \<^verbatim>\<open>to\<close>.
\<close>

theorem C3_hero_lands_one_step_ahead:
  "run [Setup [''H1''], Setup [''H1'']] initializeGame = Some heroDuel
   \<and> handle (Move ''A-H1'' ''F'') heroDuel =
       \<lparr> next_state =
           \<lparr> gameState =
               \<lparr> board =
                   [[None, None, None, None, None],
                    [Some ''A-H1'', None, None, None, None],
                    [None, None, None, None, None],
                    [None, None, None, None, None],
                    [Some ''B-H1'', None, None, None, None]],
                 piecesA = [\<lparr>name = ''H1'', row = 0, col = 0\<rparr>],
                 piecesB = [\<lparr>name = ''H1'', row = 4, col = 0\<rparr>],
                 currentPlayer = B \<rparr>,
             moveHistory = [''A-H1: F''] \<rparr>,
         sent =
           [Broadcast (MoveHistoryMsg [''A-H1: F'']),
            Broadcast (Update
              \<lparr> board =
                  [[None, None, None, None, None],
                   [Some ''A-H1'', None, None, None, None],
                   [None, None, None, None, None],
                   [None, None, None, None, None],
                   [Some ''B-H1'', None, None, None, None]],
                piecesA = [\<lparr>name = ''H1'', row = 0, col = 0\<rparr>],
                piecesB = [\<lparr>name = ''H1'', row = 4, col = 0\<rparr>],
                currentPlayer = B \<rparr>),
            Broadcast (MoveHistoryMsg [''A-H1: F''])],
         thrown = None \<rparr>"
  by code_simp

text \<open>
  Claim C4 (a rejected move leaves the match state unchanged; a long-range move whose
  two-step projection leaves the board is rejected with no capture applied). The
  match \<open>heroAtEdge\<close> is reached by ordinary play. There the move of \<^verbatim>\<open>A-H1\<close> by \<^verbatim>\<open>FR\<close>
  from (3,0) has (4,1) as first path cell and (5,2) as second. The loop of
  \<^verbatim>\<open>moveHero1\<close> captures \<^verbatim>\<open>B-P2\<close> on (4,1) and only then finds (5,2) off the board: the
  client is told \<^verbatim>\<open>Invalid move.\<close>, the turn stays with A, but the cell (4,1) and the
  roster entry of \<^verbatim>\<open>P2\<close> are gone.
\<close>

theorem C4_rejected_hero_move_captures:
  "run [Setup [''H1''], Setup [''P1'', ''P2'', ''H1''],
        Move ''A-H1'' ''F'', Move ''B-H1'' ''R'', Move ''A-H1'' ''F'',
        Move ''B-H1'' ''L'', Move ''A-H1'' ''F'', Move ''B-H1'' ''R''] initializeGame
     = Some heroAtEdge
   \<and> handle (Move ''A-H1'' ''FR'') heroAtEdge =
       \<lparr> next_state =
           \<lparr> gameState =
               \<lparr> board =
                   [[None, None, None, None, None],
                    [None, None, None, None, None],
                    [None, None, None, None, None],
                    [Some ''A-H1'', None, None, None, None],
                    [None, None, None, Some ''B-H1'', None]],
                 piecesA = [\<lparr>name = ''H1'', row = 0, col = 0\<rparr>],
                 piecesB = [\<lparr>name = ''H1'', row = 4, col = 2\<rparr>],
                 currentPlayer = A \<rparr>,
             moveHistory =
               [''A-H1: F'', ''B-H1: R'', ''A-H1: F'', ''B-H1: L'', ''A-H1: F'', ''B-H1: R''] \<rparr>,
         sent = [Send (ErrorMsg ''Invalid move.'')],
         thrown = None \<rparr>"
  by code_simp

text \<open>
  Claim C6 (an accepted move never relocates a piece of the opponent, even when the
  label carries the opponent's prefix). \<^verbatim>\<open>findPiece\<close> compares only the part after the
  dash with the names in the acting player's roster, while \<^verbatim>\<open>processMove\<close> searches the
  board for the whole label. In \<open>heroDuel\<close> player A owns a piece named \<^verbatim>\<open>H1\<close>, so the
  command of player A with the label \<^verbatim>\<open>B-H1\<close> is accepted and moves player B's hero
  from (4,0) to (3,0).
\<close>

theorem C6_opponent_piece_relocated:
  "currentPlayer (gameState heroDuel) = A
   \<and> handle (Move ''B-H1'' ''B'') heroDuel =
       \<lparr> next_state =
           \<lparr> gameState =
               \<lparr> board =
                   [[Some ''A-H1'', None, None, None, None],
                    [None, None, None, None, None],
                    [None, None, None, None, None],
                    [Some ''B-H1'', None, None, None, None],
                    [None, None, None, None, None]],
                 piecesA = [\<lparr>name = ''H1'', row = 0, col = 0\<rparr>],
                 piecesB = [\<lparr>name = ''H1'', row = 4, col = 0\<rparr>],
                 currentPlayer = B \<rparr>,
             moveHistory = [''A-H1: B''] \<rparr>,
         sent =
           [Broadcast (MoveHistoryMsg [''A-H1: B'']),
            Broadcast (Update
              \<lparr> board =
                  [[Some ''A-H1'', None, None, None, None],
                   [None, None, None, None, None],
                   [None, None, None, None, None],
                   [Some ''B-H1'', None, None, None, None],
                   [None, None, None, None, None]],
                piecesA = [\<lparr>name = ''H1'', row = 0, col = 0\<rparr>],
                piecesB = [\<lparr>name = ''H1'', row = 4, col = 0\<rparr>],
                currentPlayer = B \<rparr>),
            Broadcast (MoveHistoryMsg [''A-H1: B''])],
         thrown = None \<rparr>"
  by code_simp

section \<open>Setup: claims C7, C9 and C10\<close>

text \<open>
  Claim C7. For every accepted setup command by player X with submitted sequence
  \<open>sp\<close> (accepted means that X's roster is empty when the command arrives), piece
  \<open>sp ! i\<close> is placed at row 0 (X is A) or row 4 (X is B) and column \<open>i\<close>, on the board
  and in the roster, for every index \<open>i\<close> of \<open>sp\<close>; afterwards \<open>currentPlayer\<close> is the
  other player, except that it is A when both rosters are then non-empty.
\<close>

theorem C7_setup_places_in_order:
  assumes "reachable s"
    and "pieces (gameState s) (currentPlayer (gameState s)) = []"
  shows "let X = currentPlayer (gameState s);
             r = handleSetup sp s;
             g' = gameState (next_state r);
             home = (if X = A then 0 else 4)
         in thrown r = None
          \<and> sent r = [Broadcast (Update g')]
          \<and> length (pieces g' X) = length sp
          \<and> (\<forall>i<length sp.
                getCell (board g') home i = Some (label X (sp ! i))
              \<and> pieces g' X ! i = \<lparr>name = sp ! i, row = home, col = i\<rparr>)
          \<and> currentPlayer g' = (if piecesA g' \<noteq> [] \<and> piecesB g' \<noteq> [] then A else other X)"
proof -
  define X where "X = currentPlayer (gameState s)"
  have home: "homeRow X = (if X = A then 0 else 4)"
    by (cases X) (simp_all add: homeRow_def)
  have rows: "homeRow X < length (board (gameState s))"
    using reachable_rows[OF assms(1)] by (cases X) (simp_all add: homeRow_def)
  note acc = handleSetup_accepted[OF assms(2), of sp]
  have cells: "\<forall>i<length sp.
      getCell (board (gameState (next_state (handleSetup sp s)))) (homeRow X) i = Some (label X (sp ! i))
    \<and> pieces (gameState (next_state (handleSetup sp s))) X ! i = \<lparr>name = sp ! i, row = homeRow X, col = i\<rparr>"
    using rows by (simp add: acc(4,5) X_def[symmetric] placeAll_cell placeAll_pieces_nth)
  have len: "length (pieces (gameState (next_state (handleSetup sp s))) X) = length sp"
    by (simp add: acc(5) X_def[symmetric] placeAll_pieces_length)
  show ?thesis
    unfolding Let_def X_def[symmetric] home[symmetric]
    using acc(1,2,6) cells len by (simp add: X_def[symmetric])
qed

theorem C7_setup_places_in_order_witness:
  "reachable initializeGame
   \<and> pieces (gameState initializeGame) (currentPlayer (gameState initializeGame)) = []
   \<and> getCell (board (gameState (next_state (handleSetup [''P1'', ''P2'', ''H1''] initializeGame)))) 0 2
       = Some ''A-H1''
   \<and> pieces (gameState (next_state (handleSetup [''P1'', ''P2'', ''H1''] initializeGame))) A ! 2
       = \<lparr>name = ''H1'', row = 0, col = 2\<rparr>
   \<and> currentPlayer (gameState (next_state (handleSetup [''P1'', ''P2'', ''H1''] initializeGame))) = B
   \<and> reachable heroSetUp
   \<and> pieces (gameState heroSetUp) (currentPlayer (gameState heroSetUp)) = []
   \<and> getCell (board (gameState (next_state (handleSetup [''P1'', ''H2''] heroSetUp)))) 4 1
       = Some ''B-H2''
   \<and> currentPlayer (gameState (next_state (handleSetup [''P1'', ''H2''] heroSetUp))) = A
   \<and> reachable lateSetUp
   \<and> pieces (gameState lateSetUp) (currentPlayer (gameState lateSetUp)) = []
   \<and> getCell (board (gameState (next_state (handleSetup [''H1''] lateSetUp)))) 0 0 = Some ''A-H1''
   \<and> currentPlayer (gameState (next_state (handleSetup [''H1''] lateSetUp))) = A"
proof -
  have h1: "reachable initializeGame" by (rule reachable_init)
  have h2: "pieces (gameState initializeGame) (currentPlayer (gameState initializeGame)) = []"
    by (simp add: initializeGame_def pieces_def)
  have cp: "currentPlayer (gameState initializeGame) = A"
    by (simp add: initializeGame_def)
  have pb: "piecesB (gameState (next_state (handleSetup [''P1'', ''P2'', ''H1''] initializeGame))) = []"
    by code_simp
  have "run [Setup [''H1'']] initializeGame = Some heroSetUp"
    by code_simp
  then have k1: "reachable heroSetUp"
    by (rule reachable_run[OF reachable_init])
  have k2: "pieces (gameState heroSetUp) (currentPlayer (gameState heroSetUp)) = []"
    by (simp add: heroSetUp_def pieces_def)
  have cq: "currentPlayer (gameState heroSetUp) = B"
    by (simp add: heroSetUp_def)
  have pa: "piecesA (gameState (next_state (handleSetup [''P1'', ''H2''] heroSetUp))) \<noteq> []"
    "piecesB (gameState (next_state (handleSetup [''P1'', ''H2''] heroSetUp))) \<noteq> []"
    by code_simp+
  have "run [Setup [], Setup [''P1'']] initializeGame = Some lateSetUp"
    by code_simp
  then have l1: "reachable lateSetUp"
    by (rule reachable_run[OF reachable_init])
  have l2: "pieces (gameState lateSetUp) (currentPlayer (gameState lateSetUp)) = []"
    by (simp add: lateSetUp_def pieces_def)
  have cl: "currentPlayer (gameState lateSetUp) = A"
    by (simp add: lateSetUp_def)
  have pl: "piecesA (gameState (next_state (handleSetup [''H1''] lateSetUp))) \<noteq> []"
    "piecesB (gameState (next_state (handleSetup [''H1''] lateSetUp))) \<noteq> []"
    by code_simp+
  show ?thesis
    using h1 h2 pb k1 k2 pa l1 l2 pl
      C7_setup_places_in_order[OF h1 h2, of "[''P1'', ''P2'', ''H1'']"]
      C7_setup_places_in_order[OF k1 k2, of "[''P1'', ''H2'']"]
      C7_setup_places_in_order[OF l1 l2, of "[''H1'']"]
    by (simp add: Let_def cp cq cl label_def playerChar_def other_def)
qed

text \<open>
  Claim C9. A setup command with an empty sequence is accepted without error whenever
  the acting player's roster is empty: the roster stays empty, the other roster and
  the board are unchanged, and \<open>currentPlayer\<close> switches to the other player. If the
  other roster is empty as well, any setup by the other player hands the turn back
  with the first player's roster still empty. And in any later state in which that
  player is to act with the roster as the empty setup left it, a setup command is
  accepted again (the guard \<^verbatim>\<open>pieces.length > 0\<close> does not fire).
\<close>

theorem C9_empty_setup_accepted:
  assumes "reachable s"
    and "pieces (gameState s) (currentPlayer (gameState s)) = []"
  shows "let X = currentPlayer (gameState s);
             r = handleSetup [] s;
             g' = gameState (next_state r)
         in thrown r = None
          \<and> sent r = [Broadcast (Update g')]
          \<and> pieces g' X = []
          \<and> pieces g' (other X) = pieces (gameState s) (other X)
          \<and> board g' = board (gameState s)
          \<and> currentPlayer g' = other X
          \<and> (pieces (gameState s) (other X) = [] \<longrightarrow>
               (\<forall>sp'. currentPlayer (gameState (next_state (handleSetup sp' (next_state r)))) = X
                    \<and> pieces (gameState (next_state (handleSetup sp' (next_state r)))) X = []))
          \<and> (\<forall>s2 sp2. currentPlayer (gameState s2) = X \<and> pieces (gameState s2) X = pieces g' X \<longrightarrow>
                thrown (handleSetup sp2 s2) = None
              \<and> sent (handleSetup sp2 s2) = [Broadcast (Update (gameState (next_state (handleSetup sp2 s2))))]
              \<and> length (pieces (gameState (next_state (handleSetup sp2 s2))) X) = length sp2)"
proof -
  define X where "X = currentPlayer (gameState s)"
  define s1 where "s1 = next_state (handleSetup [] s)"
  note acc = handleSetup_accepted[OF assms(2), of "[]", folded s1_def]
  have p1: "pieces (gameState s1) X = []"
    by (simp add: acc(5) X_def)
  have p2: "pieces (gameState s1) (other X) = pieces (gameState s) (other X)"
    by (simp add: acc(5) X_def)
  have b: "board (gameState s1) = board (gameState s)"
    by (simp add: acc(4))
  have "\<not> (piecesA (gameState s1) \<noteq> [] \<and> piecesB (gameState s1) \<noteq> [])"
    using p1 by (cases X) (simp_all add: pieces_def)
  then have c: "currentPlayer (gameState s1) = other X"
    using acc(6) by (auto simp: X_def)
  have turn_back: "currentPlayer (gameState (next_state (handleSetup sp' s1))) = X
      \<and> pieces (gameState (next_state (handleSetup sp' s1))) X = []"
    if "pieces (gameState s) (other X) = []" for sp'
  proof -
    from that p2 c have e: "pieces (gameState s1) (currentPlayer (gameState s1)) = []" by simp
    note acc' = handleSetup_accepted[OF e, of sp']
    have q: "pieces (gameState (next_state (handleSetup sp' s1))) X = []"
      using p1 by (simp add: acc'(5) c)
    then have "\<not> (piecesA (gameState (next_state (handleSetup sp' s1))) \<noteq> [] \<and>
                piecesB (gameState (next_state (handleSetup sp' s1))) \<noteq> [])"
      by (cases X) (simp_all add: pieces_def)
    then have "currentPlayer (gameState (next_state (handleSetup sp' s1))) = X"
      using acc'(6) by (auto simp: c other_other)
    with q show ?thesis by simp
  qed
  have later: "thrown (handleSetup sp2 s2) = None
       \<and> sent (handleSetup sp2 s2) = [Broadcast (Update (gameState (next_state (handleSetup sp2 s2))))]
       \<and> length (pieces (gameState (next_state (handleSetup sp2 s2))) X) = length sp2"
    if "currentPlayer (gameState s2) = X"
      and "pieces (gameState s2) X = pieces (gameState s1) X"
    for s2 sp2
  proof -
    from that p1 have e: "pieces (gameState s2) (currentPlayer (gameState s2)) = []" by simp
    show ?thesis
      using handleSetup_accepted(1,2,5)[OF e, of sp2] that(1)
      by (simp add: placeAll_pieces_length)
  qed
  show ?thesis
    unfolding Let_def X_def[symmetric] s1_def[symmetric]
    using acc(1,2) p1 p2 b c turn_back later by blast
qed

theorem C9_empty_setup_accepted_witness:
  "reachable initializeGame
   \<and> pieces (gameState initializeGame) (currentPlayer (gameState initializeGame)) = []
   \<and> currentPlayer (gameState (next_state (handleSetup [] initializeGame))) = B
   \<and> board (gameState (next_state (handleSetup [] initializeGame))) = board (gameState initializeGame)
   \<and> pieces (gameState initializeGame) (other A) = []
   \<and> currentPlayer (gameState (next_state (handleSetup [''P1'']
         (next_state (handleSetup [] initializeGame))))) = A
   \<and> sent (handleSetup [''H1''] (next_state (handleSetup [''P1'']
         (next_state (handleSetup [] initializeGame)))))
       = [Broadcast (Update (gameState (next_state (handleSetup [''H1''] (next_state
           (handleSetup [''P1''] (next_state (handleSetup [] initializeGame))))))))]"
proof -
  have h1: "reachable initializeGame" by (rule reachable_init)
  have h2: "pieces (gameState initializeGame) (currentPlayer (gameState initializeGame)) = []"
    by (simp add: initializeGame_def pieces_def)
  have cp: "currentPlayer (gameState initializeGame) = A"
    by (simp add: initializeGame_def)
  have h3: "pieces (gameState initializeGame) (other A) = []"
    by (simp add: initializeGame_def pieces_def other_def)
  note c9 = C9_empty_setup_accepted[OF h1 h2, unfolded Let_def cp]
  from c9 h3 have turn: "currentPlayer (gameState (next_state (handleSetup [''P1'']
         (next_state (handleSetup [] initializeGame))))) = A
     \<and> pieces (gameState (next_state (handleSetup [''P1'']
         (next_state (handleSetup [] initializeGame))))) A = []"
    by blast
  from c9 have again: "pieces (gameState (next_state (handleSetup [''P1'']
         (next_state (handleSetup [] initializeGame))))) A
       = pieces (gameState (next_state (handleSetup [] initializeGame))) A"
    using turn by simp
  from c9 turn again have "sent (handleSetup [''H1''] (next_state (handleSetup [''P1'']
         (next_state (handleSetup [] initializeGame)))))
       = [Broadcast (Update (gameState (next_state (handleSetup [''H1''] (next_state
           (handleSetup [''P1''] (next_state (handleSetup [] initializeGame))))))))]"
    by blast
  then show ?thesis
    using h1 h2 h3 turn c9 by (simp add: other_def)
qed

text \<open>
  Claim C10. The setup handler enforces no upper bound on the roster size: for every
  submitted sequence of length \<open>n\<close> the \<open>i\<close>-th piece is written at column \<open>i\<close> for all
  \<open>i < n\<close>, so the home row of the board grows to at least \<open>n\<close> cells while the board
  keeps its five rows; with \<open>n > 5\<close> cells at column 5 and beyond are written.
\<close>

theorem C10_setup_unbounded:
  assumes "reachable s"
    and "pieces (gameState s) (currentPlayer (gameState s)) = []"
  shows "let X = currentPlayer (gameState s);
             r = handleSetup sp s;
             g' = gameState (next_state r)
         in thrown r = None
          \<and> length (pieces g' X) = length sp
          \<and> (\<forall>i<length sp.
                getCell (board g') (homeRow X) i = Some (label X (sp ! i))
              \<and> col (pieces g' X ! i) = i)
          \<and> length (board g') = 5
          \<and> length sp \<le> length (board g' ! homeRow X)"
proof -
  define X where "X = currentPlayer (gameState s)"
  have five: "length (board (gameState s)) = 5"
    by (rule reachable_rows[OF assms(1)])
  then have rows: "homeRow X < length (board (gameState s))"
    by (cases X) (simp_all add: homeRow_def)
  note acc = handleSetup_accepted[OF assms(2), of sp]
  have cells: "\<forall>i<length sp.
      getCell (board (gameState (next_state (handleSetup sp s)))) (homeRow X) i = Some (label X (sp ! i))
    \<and> col (pieces (gameState (next_state (handleSetup sp s))) X ! i) = i"
    using rows by (simp add: acc(4,5) X_def[symmetric] placeAll_cell placeAll_pieces_nth)
  have len: "length (pieces (gameState (next_state (handleSetup sp s))) X) = length sp"
    by (simp add: acc(5) X_def[symmetric] placeAll_pieces_length)
  have five': "length (board (gameState (next_state (handleSetup sp s)))) = 5"
    using five by (simp add: handleSetup_rows)
  have wide: "length sp \<le> length (board (gameState (next_state (handleSetup sp s))) ! homeRow X)"
    using rows by (simp add: acc(4) X_def[symmetric] placeAll_rowlen)
  show ?thesis
    unfolding Let_def X_def[symmetric]
    using acc(1) cells len five' wide by simp
qed

theorem C10_setup_unbounded_witness:
  "reachable initializeGame
   \<and> pieces (gameState initializeGame) (currentPlayer (gameState initializeGame)) = []
   \<and> getCell (board (gameState (next_state
        (handleSetup [''P1'', ''P2'', ''P3'', ''P4'', ''P5'', ''P6'', ''P7''] initializeGame)))) 0 6
       = Some ''A-P7''
   \<and> 7 \<le> length (board (gameState (next_state
        (handleSetup [''P1'', ''P2'', ''P3'', ''P4'', ''P5'', ''P6'', ''P7''] initializeGame))) ! 0)"
proof -
  have h1: "reachable initializeGame" by (rule reachable_init)
  have h2: "pieces (gameState initializeGame) (currentPlayer (gameState initializeGame)) = []"
    by (simp add: initializeGame_def pieces_def)
  have cp: "currentPlayer (gameState initializeGame) = A"
    by (simp add: initializeGame_def)
  show ?thesis
    using h1 h2 C10_setup_unbounded[OF h1 h2, of "[''P1'', ''P2'', ''P3'', ''P4'', ''P5'', ''P6'', ''P7'']"]
    by (simp add: Let_def cp label_def playerChar_def homeRow_def)
qed

section \<open>Turn order and game over: claims C8 and C5\<close>

text \<open>
  Claim C8 as stated (\<open>currentPlayer\<close> changes only through an accepted setup or an
  accepted move) fails on the reset command: after player A's setup it is player B's
  turn, and \<^verbatim>\<open>reset\<close> puts the turn back to A.
\<close>

theorem C8_reset_changes_currentPlayer:
  "run [Setup [''H1'']] initializeGame = Some heroSetUp
   \<and> currentPlayer (gameState heroSetUp) = B
   \<and> currentPlayer (gameState (next_state (handle Reset heroSetUp))) = A"
  by code_simp

text \<open>
  Claim C8, amended. For every state and every command: a rejected command (setup
  conflict, unknown piece, illegal move) and a command whose handler throws leave
  \<open>currentPlayer\<close> as it was; and whenever \<open>currentPlayer\<close> changes, the command was
  either a reset issued on player B's turn (which sets it to A), or a setup or move
  command that was accepted.
\<close>

theorem C8_currentPlayer_changes:
  "let r = handle c s;
       before = currentPlayer (gameState s);
       after = currentPlayer (gameState (next_state r))
   in (rejected r \<or> thrown r \<noteq> None \<longrightarrow> after = before)
    \<and> (after \<noteq> before \<longrightarrow>
         (c = Reset \<and> before = B \<and> after = A)
       \<or> (c \<noteq> Reset \<and> \<not> rejected r \<and> thrown r = None))"
proof -
  have rej: "rejected (handle c s) \<or> thrown (handle c s) \<noteq> None \<Longrightarrow>
      currentPlayer (gameState (next_state (handle c s))) = currentPlayer (gameState s)"
    by (cases c)
       (simp_all add: handle_def handleSetup_rejected_cur handleMove_rejected_cur
          resetGame_def rejected_def)
  have rst: "c = Reset \<Longrightarrow> currentPlayer (gameState (next_state (handle c s))) = A"
    by (simp add: handle_def resetGame_def initializeGame_def)
  have "(c = Reset \<and> currentPlayer (gameState s) = B \<and> currentPlayer (gameState (next_state (handle c s))) = A)
    \<or> (c \<noteq> Reset \<and> \<not> rejected (handle c s) \<and> thrown (handle c s) = None)"
    if ch: "currentPlayer (gameState (next_state (handle c s))) \<noteq> currentPlayer (gameState s)"
  proof (cases "c = Reset")
    case True
    then have "currentPlayer (gameState (next_state (handle c s))) = A" by (rule rst)
    moreover from this ch have "currentPlayer (gameState s) = B"
      by (cases "currentPlayer (gameState s)") simp_all
    ultimately show ?thesis using True by simp
  next
    case False
    from ch rej have "\<not> (rejected (handle c s) \<or> thrown (handle c s) \<noteq> None)" by blast
    then show ?thesis using False by simp
  qed
  then show ?thesis using rej by (simp add: Let_def)
qed

theorem C8_currentPlayer_changes_witness:
  "rejected (handle (Move ''A-H1'' ''FR'') heroAtEdge)
   \<and> currentPlayer (gameState (next_state (handle (Move ''A-H1'' ''FR'') heroAtEdge)))
       = currentPlayer (gameState heroAtEdge)
   \<and> currentPlayer (gameState (next_state (handle (Move ''A-H1'' ''F'') heroDuel)))
       \<noteq> currentPlayer (gameState heroDuel)
   \<and> \<not> rejected (handle (Move ''A-H1'' ''F'') heroDuel)
   \<and> thrown (handle (Move ''A-H1'' ''F'') heroDuel) = None"
proof -
  have r1: "rejected (handle (Move ''A-H1'' ''FR'') heroAtEdge)"
    by code_simp
  have r2: "currentPlayer (gameState (next_state (handle (Move ''A-H1'' ''F'') heroDuel)))
       \<noteq> currentPlayer (gameState heroDuel)"
    by code_simp
  show ?thesis
    using r1 r2
      C8_currentPlayer_changes[of "Move ''A-H1'' ''FR''" heroAtEdge]
      C8_currentPlayer_changes[of "Move ''A-H1'' ''F''" heroDuel]
    by (simp add: Let_def)
qed

text \<open>
  Claim C5 as stated (the end broadcast is immediately followed by an update broadcast
  carrying the fresh state) fails: in \<open>lastPieceAhead\<close>, reached by ordinary play, the
  move of \<^verbatim>\<open>A-H1\<close> by \<^verbatim>\<open>F\<close> captures player B's last piece; the handler broadcasts the
  move history and the end event, calls \<^verbatim>\<open>initializeGame\<close> and returns. No update is
  broadcast.
\<close>

theorem C5_no_update_after_end:
  "run [Setup [''H1''], Setup [''P1'', ''H1''],
        Move ''A-H1'' ''F'', Move ''B-H1'' ''R'', Move ''A-H1'' ''F'', Move ''B-H1'' ''L'',
        Move ''A-H1'' ''F'', Move ''B-H1'' ''R'', Move ''A-H1'' ''BR'', Move ''B-H1'' ''L'']
     initializeGame = Some lastPieceAhead
   \<and> piecesB (gameState (fst (snd (processMove A ''A-H1'' ''F'' lastPieceAhead)))) = []
   \<and> handle (Move ''A-H1'' ''F'') lastPieceAhead =
       \<lparr> next_state = initializeGame,
         sent =
           [Broadcast (MoveHistoryMsg
              [''A-H1: F'', ''B-H1: R'', ''A-H1: F'', ''B-H1: L'', ''A-H1: F'', ''B-H1: R'',
               ''A-H1: BR'', ''B-H1: L'', ''A-H1: F'']),
            Broadcast (EndMsg A)],
         thrown = None \<rparr>"
  by code_simp

text \<open>
  Claim C5, amended. In every reachable state, whenever an accepted move leaves either
  player's roster empty, the handler broadcasts the move history and then an end event
  naming as winner the player whose roster is non-empty (it is always the player who
  moved; the other roster is the empty one), and reinitializes the match to the fresh
  state: empty board, empty rosters, empty move log, \<open>currentPlayer\<close> A. These two
  broadcasts are all it sends.
\<close>

theorem C5_game_over:
  assumes "reachable s"
    and "findPiece (gameState s) (currentPlayer (gameState s)) character = Some q"
    and "processMove (currentPlayer (gameState s)) character m s = (Inr True, s', out)"
    and "piecesA (gameState s') = [] \<or> piecesB (gameState s') = []"
  shows "handle (Move character m) s =
           \<lparr> next_state =
               \<lparr> gameState =
                   \<lparr> board = replicate 5 (replicate 5 None),
                     piecesA = [], piecesB = [], currentPlayer = A \<rparr>,
                 moveHistory = [] \<rparr>,
             sent =
               [Broadcast (MoveHistoryMsg (moveHistory s')),
                Broadcast (EndMsg (currentPlayer (gameState s)))],
             thrown = None \<rparr>
       \<and> pieces (gameState s') (currentPlayer (gameState s)) \<noteq> []
       \<and> pieces (gameState s') (other (currentPlayer (gameState s))) = []"
proof -
  define X where "X = currentPlayer (gameState s)"
  have own: "pieces (gameState s') X \<noteq> []"
    unfolding X_def
    by (rule processMove_keeps_roster[OF reachable_anchored[OF assms(1)] assms(3)
          findPiece_Some_roster[OF assms(2)]])
  have lost: "pieces (gameState s') (other X) = []"
    using own assms(4) by (cases X) (auto simp: pieces_def other_def)
  have winner: "(if piecesA (gameState s') = [] then B else A) = X"
    using own assms(4) by (cases X) (auto simp: pieces_def)
  have "handleMove character m s =
      \<lparr> next_state = initializeGame,
        sent = out @ [Broadcast (EndMsg (if piecesA (gameState s') = [] then B else A))],
        thrown = None \<rparr>"
    using assms(2,3,4) by (auto simp: handleMove_def)
  moreover have "out = [Broadcast (MoveHistoryMsg (moveHistory s'))]"
    by (rule processMove_cases[of "currentPlayer (gameState s)" character m s])
       (use assms(3) in \<open>auto split: if_splits\<close>)
  ultimately show ?thesis
    using own lost winner
    by (simp add: handle_def X_def initializeGame_def emptyBoard_def)
qed

theorem C5_game_over_witness:
  "reachable lastPieceAhead
   \<and> findPiece (gameState lastPieceAhead) (currentPlayer (gameState lastPieceAhead)) ''A-H1''
       = Some \<lparr>name = ''H1'', row = 0, col = 0\<rparr>
   \<and> sent (handle (Move ''A-H1'' ''F'') lastPieceAhead) =
       [Broadcast (MoveHistoryMsg
          [''A-H1: F'', ''B-H1: R'', ''A-H1: F'', ''B-H1: L'', ''A-H1: F'', ''B-H1: R'',
           ''A-H1: BR'', ''B-H1: L'', ''A-H1: F'']),
        Broadcast (EndMsg A)]
   \<and> piecesA (gameState (fst (snd (processMove A ''A-H1'' ''F'' lastPieceAhead)))) \<noteq> []
   \<and> piecesB (gameState (fst (snd (processMove A ''A-H1'' ''F'' lastPieceAhead)))) = []"
proof -
  define s' where "s' =
     \<lparr> gameState =
         \<lparr> board =
             [[None, None, None, None, None],
              [None, None, None, None, None],
              [None, None, None, None, None],
              [None, Some ''A-H1'', None, None, None],
              [None, None, None, None, None]],
           piecesA = [\<lparr>name = ''H1'', row = 0, col = 0\<rparr>],
           piecesB = [],
           currentPlayer = A \<rparr>,
       moveHistory =
         [''A-H1: F'', ''B-H1: R'', ''A-H1: F'', ''B-H1: L'', ''A-H1: F'', ''B-H1: R'',
          ''A-H1: BR'', ''B-H1: L'', ''A-H1: F''] \<rparr>"
  have "run [Setup [''H1''], Setup [''P1'', ''H1''],
        Move ''A-H1'' ''F'', Move ''B-H1'' ''R'', Move ''A-H1'' ''F'', Move ''B-H1'' ''L'',
        Move ''A-H1'' ''F'', Move ''B-H1'' ''R'', Move ''A-H1'' ''BR'', Move ''B-H1'' ''L'']
     initializeGame = Some lastPieceAhead"
    by code_simp
  then have h1: "reachable lastPieceAhead"
    by (rule reachable_run[OF reachable_init])
  have cp: "currentPlayer (gameState lastPieceAhead) = A"
    by (simp add: lastPieceAhead_def)
  have h2: "findPiece (gameState lastPieceAhead) (currentPlayer (gameState lastPieceAhead)) ''A-H1''
       = Some \<lparr>name = ''H1'', row = 0, col = 0\<rparr>"
    by code_simp
  have "processMove A ''A-H1'' ''F'' lastPieceAhead =
      (Inr True, s', [Broadcast (MoveHistoryMsg (moveHistory s'))])"
    unfolding s'_def by code_simp
  then have h3: "processMove (currentPlayer (gameState lastPieceAhead)) ''A-H1'' ''F'' lastPieceAhead =
      (Inr True, s', [Broadcast (MoveHistoryMsg (moveHistory s'))])"
    by (simp add: cp)
  have h4: "piecesA (gameState s') = [] \<or> piecesB (gameState s') = []"
    by (simp add: s'_def)
  show ?thesis
    using h1 h2 h3 C5_game_over[OF h1 h2 h3 h4]
    by (simp add: cp s'_def pieces_def other_def)
qed

end
